theory Spec2Isabelle
  imports
    Main
    "HOL-Library.Word"
    "HOL-Library.Char_ord"
    "HOL-Library.List_Lexorder"
    "HOL-Library.AList"
    "HOL-Library.Multiset"
begin

unbundle bit_operations_syntax

chapter \<open>Auditbeat system module: the login tailer and the user differ\<close>

text \<open>
  A shallow embedding of \<^verbatim>\<open>x-pack/auditbeat/module/system/login/utmp.go\<close>,
  of the older reader kept as \<^verbatim>\<open>src/unnamed/part_000\<close>, and of
  \<^verbatim>\<open>x-pack/auditbeat/module/system/user/user.go\<close>.

  Go's \<^verbatim>\<open>int\<close> and \<^verbatim>\<open>int64\<close> values are only compared and copied by the code
  below, so they are HOL integers; \<^verbatim>\<open>uint32\<close> is \<^typ>\<open>32 word\<close>, \<^verbatim>\<open>uint64\<close> is
  \<^typ>\<open>64 word\<close>. A \<^verbatim>\<open>time.Time\<close> is the number of nanoseconds since Go's zero time,
  so that the zero value of the type is \<open>0\<close>.
\<close>

section \<open>Login tailer: data\<close>

type_synonym Inode = "64 word"

type_synonym time = int

text \<open>\<^verbatim>\<open>type Utmp struct\<close> (\<^verbatim>\<open>part_000\<close>, lines 51-59); \<^verbatim>\<open>UtAddrV6 [4]uint32\<close> is a 4-tuple.\<close>

record Utmp =
  UtType :: int
  UtPid :: int
  UtLine :: string
  UtUser :: string
  UtHost :: string
  UtTv :: time
  UtAddrV6 :: "32 word \<times> 32 word \<times> 32 word \<times> 32 word"

text \<open>The zero value of the struct: what a Go declaration without initialiser holds.\<close>

definition zero_Utmp :: Utmp where
  "zero_Utmp = \<lparr>UtType = 0, UtPid = 0, UtLine = [], UtUser = [], UtHost = [], UtTv = 0,
     UtAddrV6 = (0, 0, 0, 0)\<rparr>"

text \<open>
  Modelled from the spec: the record-type tags of \<^verbatim>\<open>utmp(5)\<close>, which the code takes from
  the C header (\<^verbatim>\<open>C.RUN_LVL // 1\<close>, \<^verbatim>\<open>C.BOOT_TIME // 2\<close>, \<^verbatim>\<open>C.USER_PROCESS // 7\<close>,
  \<^verbatim>\<open>C.DEAD_PROCESS // 8\<close> in \<^verbatim>\<open>part_000\<close>, lines 315-355).
\<close>

definition RUN_LVL :: int where "RUN_LVL = 1"
definition BOOT_TIME :: int where "BOOT_TIME = 2"
definition USER_PROCESS :: int where "USER_PROCESS = 7"
definition DEAD_PROCESS :: int where "DEAD_PROCESS = 8"

text \<open>
  Modelled from the spec: the kind of a session event (section 3: \<^verbatim>\<open>user_login\<close>, \<^verbatim>\<open>user_logout\<close>,
  boot, shutdown, unknown); its declaration is not among the sources. \<open>noRecordType\<close> is the
  zero value a \<^verbatim>\<open>LoginRecord\<close> literal without \<^verbatim>\<open>Type\<close> holds. utmp.go writes
  \<^verbatim>\<open>userLoginRecord\<close>, \<^verbatim>\<open>userLogoutRecord\<close>, \<^verbatim>\<open>bootRecord\<close>, \<^verbatim>\<open>shutdownRecord\<close>;
  \<^verbatim>\<open>part_000\<close> writes \<^verbatim>\<open>LoginRecordTypeUserLogin\<close> and so on, and \<^verbatim>\<open>LoginRecordTypeUnknown\<close>.
\<close>

datatype RecordType =
  noRecordType
  | userLoginRecord
  | userLogoutRecord
  | bootRecord
  | shutdownRecord
  | unknownRecord

text \<open>
  Modelled from the spec: \<^verbatim>\<open>LoginRecord\<close>, the enriched session event (section 3). Its
  declaration is not among the sources; the fields are the ones \<^verbatim>\<open>processLoginRecord\<close> and
  \<^verbatim>\<open>ReadNew\<close> assign. \<^verbatim>\<open>IP\<close> is a \<^verbatim>\<open>*net.IP\<close>: \<open>None\<close> is the nil pointer, the bytes
  otherwise.
\<close>

record LoginRecord =
  Utmp :: Utmp
  Timestamp :: time
  UID :: int
  PID :: int
  TTY :: string
  Type :: RecordType
  Username :: string
  IP :: "8 word list option"
  Hostname :: string
  Origin :: string

text \<open>\<^verbatim>\<open>type FileRecord struct\<close> (utmp.go, lines 38-42): the cursor of one inode.\<close>

record FileRecord =
  Inode :: Inode
  Size :: int
  LastUtmp :: Utmp

text \<open>
  \<^verbatim>\<open>type UtmpFileReader struct\<close> (utmp.go, lines 45-51), without the logger and the bucket:
  the two Go maps are partial functions.
\<close>

record UtmpFileReader =
  filePattern :: string
  fileRecords :: "Inode \<rightharpoonup> FileRecord"
  loginSessions :: "string \<rightharpoonup> LoginRecord"

section \<open>Login tailer: the operating system\<close>

text \<open>
  What a file holds when it is read: the records \<^verbatim>\<open>ReadNextUtmp\<close> decodes one after the
  other, then either \<^verbatim>\<open>io.EOF\<close> or, when \<open>read_fails\<close>, another error. \<open>seek_fails\<close>
  says whether \<^verbatim>\<open>f.Seek(0, 0)\<close> returns an error.
\<close>

record utmp_file =
  records :: "Utmp list"
  read_fails :: bool
  seek_fails :: bool

datatype stat_result =
  StatNotExist
  | StatFailed
  | StatOk Inode int

text \<open>
  The calls into the operating system, as functions of their arguments:
  \<^verbatim>\<open>filepath.Glob\<close> (\<open>None\<close> is its error), \<^verbatim>\<open>os.Stat\<close> (with the inode and the size of
  a file that exists), \<^verbatim>\<open>os.Open\<close> (\<open>None\<close> is its error) and \<^verbatim>\<open>user.Lookup\<close>
  (the \<^verbatim>\<open>Uid\<close> string of the user found).
\<close>

record os_env =
  Glob :: "string \<Rightarrow> string list option"
  Stat :: "string \<Rightarrow> stat_result"
  Open :: "string \<Rightarrow> utmp_file option"
  user_Lookup :: "string \<Rightarrow> string option"

datatype error =
  ErrExpandPattern
  | ErrLookingUpFile string
  | ErrOpening string
  | ErrReadingEntry
  | ErrReadingFromBeginning
  | ErrReadingFile string error
  | ErrNoNewRecords string
  | ErrSelectingFile

section \<open>Login tailer: \<^verbatim>\<open>lookupUsername\<close> and \<^verbatim>\<open>newIP\<close>\<close>

text \<open>
  \<^verbatim>\<open>strconv.Atoi\<close>: an optional sign, then decimal digits only, at least one; \<open>None\<close> is
  its error (a syntax error, or a value outside the 64-bit range of \<^verbatim>\<open>int\<close>).
\<close>

definition digit_of :: "char \<Rightarrow> nat option" where
  "digit_of c =
     (let n = (of_char c :: nat) in if 48 \<le> n \<and> n \<le> 57 then Some (n - 48) else None)"

fun digits_value :: "nat \<Rightarrow> string \<Rightarrow> nat option" where
  "digits_value acc [] = Some acc"
| "digits_value acc (c # cs) =
     (case digit_of c of None \<Rightarrow> None | Some d \<Rightarrow> digits_value (10 * acc + d) cs)"

definition Atoi :: "string \<Rightarrow> int option" where
  "Atoi s =
     (let neg = (s \<noteq> [] \<and> hd s = CHR ''-'');
          ds = (if s \<noteq> [] \<and> (hd s = CHR ''-'' \<or> hd s = CHR ''+'') then tl s else s)
      in if ds = [] then None
         else (case digits_value 0 ds of
                 None \<Rightarrow> None
               | Some n \<Rightarrow>
                   (let v = (if neg then - int n else int n)
                    in if - (2 ^ 63) \<le> v \<and> v < 2 ^ 63 then Some v else None)))"

text \<open>\<^verbatim>\<open>lookupUsername\<close> (utmp.go, lines 350-362): \<open>-1\<close> on every failure.\<close>

definition lookupUsername :: "os_env \<Rightarrow> string \<Rightarrow> int" where
  "lookupUsername env username =
     (if username \<noteq> [] then
        (case user_Lookup env username of
           Some uid_string \<Rightarrow> (case Atoi uid_string of Some uid \<Rightarrow> uid | None \<Rightarrow> - 1)
         | None \<Rightarrow> - 1)
      else - 1)"

text \<open>\<^verbatim>\<open>binary.LittleEndian.PutUint32\<close>: the four bytes, least significant first.\<close>

definition PutUint32 :: "32 word \<Rightarrow> 8 word list" where
  "PutUint32 v =
     [ucast v, ucast (drop_bit 8 v), ucast (drop_bit 16 v), ucast (drop_bit 24 v)]"

text \<open>\<^verbatim>\<open>newIP\<close> (utmp.go, lines 364-384).\<close>

definition newIP :: "32 word \<times> 32 word \<times> 32 word \<times> 32 word \<Rightarrow> 8 word list" where
  "newIP utAddrV6 =
     (case utAddrV6 of (a0, a1, a2, a3) \<Rightarrow>
        if a1 \<noteq> 0 \<or> a2 \<noteq> 0 \<or> a3 \<noteq> 0
        then PutUint32 a0 @ PutUint32 a1 @ PutUint32 a2 @ PutUint32 a3
        else PutUint32 a0)"

section \<open>Login tailer: \<^verbatim>\<open>processLoginRecord\<close>\<close>

text \<open>
  \<^verbatim>\<open>rune(utmp.UtPid)\<close> keeps the low 32 bits as a signed number; \<^verbatim>\<open>string(r)\<close> of a rune
  is the one-byte string \<^verbatim>\<open>"0"\<close> exactly when the rune is 48, and \<^verbatim>\<open>"6"\<close> exactly when
  it is 54 (every other rune encodes to another string).
\<close>

definition rune :: "int \<Rightarrow> int" where
  "rune i = sint (word_of_int i :: 32 word)"

text \<open>
  The record \<^verbatim>\<open>processLoginRecord\<close> starts from (utmp.go, lines 262-271): the fields
  that the literal leaves out hold their zero values.
\<close>

definition newLoginRecord :: "Utmp \<Rightarrow> LoginRecord" where
  "newLoginRecord utmp =
     \<lparr>Utmp = utmp, Timestamp = UtTv utmp, UID = - 1, PID = - 1,
      TTY = (if UtLine utmp \<noteq> ''~'' then UtLine utmp else []),
      Type = noRecordType, Username = [], IP = None, Hostname = [], Origin = []\<rparr>"

text \<open>
  \<^verbatim>\<open>processLoginRecord\<close> (utmp.go, lines 261-345). The result is the returned pointer
  (\<open>None\<close> for \<^verbatim>\<open>nil\<close>) and the reader with its session table as the call leaves it.
\<close>

definition processLoginRecord ::
  "os_env \<Rightarrow> UtmpFileReader \<Rightarrow> Utmp \<Rightarrow> LoginRecord option \<times> UtmpFileReader" where
  "processLoginRecord env r utmp =
     (let rec = newLoginRecord utmp in
      if UtType utmp = RUN_LVL then
        (if UtUser utmp = ''shutdown'' \<or> rune (UtPid utmp) = 48 \<or> rune (UtPid utmp) = 54
         then (Some (rec\<lparr>Type := shutdownRecord\<rparr>), r\<lparr>loginSessions := Map.empty\<rparr>)
         else (None, r))
      else if UtType utmp = BOOT_TIME then
        (if UtLine utmp = ''~'' \<and> UtUser utmp = ''reboot''
         then (Some (rec\<lparr>Type := bootRecord\<rparr>), r\<lparr>loginSessions := Map.empty\<rparr>)
         else (None, r))
      else if UtType utmp = USER_PROCESS then
        (let rec' = rec\<lparr>Type := userLoginRecord, Username := UtUser utmp,
                         UID := lookupUsername env (UtUser utmp), PID := UtPid utmp,
                         IP := Some (newIP (UtAddrV6 utmp)), Hostname := UtHost utmp\<rparr>
         in (Some rec', r\<lparr>loginSessions := (loginSessions r)(TTY rec' \<mapsto> rec')\<rparr>))
      else if UtType utmp = DEAD_PROCESS then
        (case loginSessions r (TTY rec) of
           Some savedRecord \<Rightarrow>
             (Some (rec\<lparr>Type := userLogoutRecord, Username := Username savedRecord,
                         UID := UID savedRecord, PID := PID savedRecord,
                         IP := IP savedRecord, Hostname := Hostname savedRecord\<rparr>), r)
         | None \<Rightarrow> (None, r))
      else (None, r))"

text \<open>
  \<^verbatim>\<open>processLoginRecord\<close> of \<^verbatim>\<open>part_000\<close> (lines 301-384): the same function, but for a
  boot-time record that is not the reboot marker, which it returns with
  \<^verbatim>\<open>LoginRecordTypeUnknown\<close>.
\<close>

definition processLoginRecord_part0 ::
  "os_env \<Rightarrow> UtmpFileReader \<Rightarrow> Utmp \<Rightarrow> LoginRecord option \<times> UtmpFileReader" where
  "processLoginRecord_part0 env r utmp =
     (let rec = newLoginRecord utmp in
      if UtType utmp = RUN_LVL then
        (if UtUser utmp = ''shutdown'' \<or> rune (UtPid utmp) = 48 \<or> rune (UtPid utmp) = 54
         then (Some (rec\<lparr>Type := shutdownRecord\<rparr>), r\<lparr>loginSessions := Map.empty\<rparr>)
         else (None, r))
      else if UtType utmp = BOOT_TIME then
        (if UtLine utmp = ''~'' \<and> UtUser utmp = ''reboot''
         then (Some (rec\<lparr>Type := bootRecord\<rparr>), r\<lparr>loginSessions := Map.empty\<rparr>)
         else (Some (rec\<lparr>Type := unknownRecord\<rparr>), r))
      else if UtType utmp = USER_PROCESS then
        (let rec' = rec\<lparr>Type := userLoginRecord, Username := UtUser utmp,
                         UID := lookupUsername env (UtUser utmp), PID := UtPid utmp,
                         IP := Some (newIP (UtAddrV6 utmp)), Hostname := UtHost utmp\<rparr>
         in (Some rec', r\<lparr>loginSessions := (loginSessions r)(TTY rec' \<mapsto> rec')\<rparr>))
      else if UtType utmp = DEAD_PROCESS then
        (case loginSessions r (TTY rec) of
           Some savedRecord \<Rightarrow>
             (Some (rec\<lparr>Type := userLogoutRecord, Username := Username savedRecord,
                         UID := UID savedRecord, PID := PID savedRecord,
                         IP := IP savedRecord, Hostname := Hostname savedRecord\<rparr>), r)
         | None \<Rightarrow> (None, r))
      else (None, r))"

section \<open>Login tailer: \<^verbatim>\<open>readAfter\<close>\<close>

text \<open>
  \<^verbatim>\<open>reflect.DeepEqual\<close> takes two \<^verbatim>\<open>interface{}\<close> values, each with its dynamic type.
  The values the readers hand to it are a \<^verbatim>\<open>Utmp\<close> struct or a \<^verbatim>\<open>*Utmp\<close> pointer (here
  with the struct it points to). Two structs are deeply equal when all their fields are,
  two pointers when the structs they point to are, and values of distinct types never
  are (package reflect: "Values of distinct types are never deeply equal").
\<close>

datatype go_value =
  UtmpStruct Utmp
  | UtmpPointer Utmp

fun DeepEqual :: "go_value \<Rightarrow> go_value \<Rightarrow> bool" where
  "DeepEqual (UtmpStruct x) (UtmpStruct y) = (x = y)"
| "DeepEqual (UtmpPointer x) (UtmpPointer y) = (x = y)"
| "DeepEqual (UtmpStruct x) (UtmpPointer y) = False"
| "DeepEqual (UtmpPointer x) (UtmpStruct y) = False"

text \<open>
  The loop of \<^verbatim>\<open>readAfter\<close> (utmp.go, lines 213-253). \<open>rest\<close> is what the file still
  holds from the read position on. \<^verbatim>\<open>ReadNextUtmp\<close> returns a \<^verbatim>\<open>*Utmp\<close> (the loop tests
  it against \<^verbatim>\<open>nil\<close> and appends \<^verbatim>\<open>*utmp\<close>), and line 227 hands that pointer and the
  struct \<^verbatim>\<open>*lastKnownRecord\<close> to \<^verbatim>\<open>reflect.DeepEqual\<close>. At the end of the file a
  read error returns; a scan that has not reached the new records seeks to the start
  and goes round again with \<open>reachedNewRecords\<close> set.
\<close>

function readAfter_loop ::
  "utmp_file \<Rightarrow> Utmp option \<Rightarrow> Utmp list \<Rightarrow> bool \<Rightarrow> Utmp list \<Rightarrow> error + Utmp list" where
  "readAfter_loop f lastKnownRecord rest reachedNewRecords utmpRecords =
     (case rest of
        utmp # rest' \<Rightarrow>
          readAfter_loop f lastKnownRecord rest'
            (if \<not> reachedNewRecords \<and> lastKnownRecord \<noteq> None
                \<and> DeepEqual (UtmpPointer utmp) (UtmpStruct (the lastKnownRecord))
             then True else reachedNewRecords)
            (if reachedNewRecords then utmpRecords @ [utmp] else utmpRecords)
      | [] \<Rightarrow>
          if read_fails f then Inl ErrReadingEntry
          else if \<not> reachedNewRecords \<and> lastKnownRecord \<noteq> None then
            (if seek_fails f then Inl ErrReadingFromBeginning
             else readAfter_loop f lastKnownRecord (records f) True utmpRecords)
          else Inr utmpRecords)"
  by pat_completeness auto
termination
  by (relation "measure (\<lambda>(f, l, rest, reached, acc).
        (if reached then 0 else Suc (length (records f))) + length rest)") auto

declare readAfter_loop.simps [simp del]

text \<open>\<^verbatim>\<open>readAfter\<close> (utmp.go, lines 210-256); \<open>None\<close> is a nil \<^verbatim>\<open>lastKnownRecord\<close>.\<close>

definition readAfter :: "utmp_file \<Rightarrow> Utmp option \<Rightarrow> error + Utmp list" where
  "readAfter f lastKnownRecord =
     readAfter_loop f lastKnownRecord (records f) (lastKnownRecord = None) []"

text \<open>
  The loop of \<^verbatim>\<open>readAfter\<close> in \<^verbatim>\<open>part_000\<close> (lines 259-294). \<^verbatim>\<open>newUtmp\<close> returns a
  struct there, so line 275 compares two structs. At the end of the file a scan that has
  not reached the new records calls \<^verbatim>\<open>readAfter(path, nil)\<close>, which reads the file again
  from its start and returns all of it.
\<close>

fun readAll_part0 :: "utmp_file \<Rightarrow> Utmp list \<Rightarrow> Utmp list \<Rightarrow> error + Utmp list" where
  "readAll_part0 f [] utmpRecords =
     (if read_fails f then Inl ErrReadingEntry else Inr utmpRecords)"
| "readAll_part0 f (utmp # rest) utmpRecords = readAll_part0 f rest (utmpRecords @ [utmp])"

fun readAfter_loop_part0 ::
  "utmp_file \<Rightarrow> Utmp \<Rightarrow> Utmp list \<Rightarrow> bool \<Rightarrow> Utmp list \<Rightarrow> error + Utmp list" where
  "readAfter_loop_part0 f lastKnownRecord [] reachedNewRecords utmpRecords =
     (if read_fails f then Inl ErrReadingEntry
      else if \<not> reachedNewRecords then readAll_part0 f (records f) []
      else Inr utmpRecords)"
| "readAfter_loop_part0 f lastKnownRecord (utmp # rest) reachedNewRecords utmpRecords =
     readAfter_loop_part0 f lastKnownRecord rest
       (if DeepEqual (UtmpStruct utmp) (UtmpStruct lastKnownRecord) then True
        else reachedNewRecords)
       (if reachedNewRecords then utmpRecords @ [utmp] else utmpRecords)"

text \<open>
  \<^verbatim>\<open>readAfter\<close> of \<^verbatim>\<open>part_000\<close> (lines 242-297) takes the path; the file is \<open>None\<close>
  when \<^verbatim>\<open>C.utmpname\<close> fails to select it.
\<close>

definition readAfter_part0 :: "utmp_file option \<Rightarrow> Utmp option \<Rightarrow> error + Utmp list" where
  "readAfter_part0 file lastKnownRecord =
     (case file of
        None \<Rightarrow> Inl ErrSelectingFile
      | Some f \<Rightarrow>
          (case lastKnownRecord of
             None \<Rightarrow> readAll_part0 f (records f) []
           | Some l \<Rightarrow> readAfter_loop_part0 f l (records f) False []))"

section \<open>Login tailer: the cursors\<close>

text \<open>
  \<^verbatim>\<open>updateFileRecord\<close> (utmp.go, lines 189-205); \<open>None\<close> is a nil \<^verbatim>\<open>utmpRecords\<close>
  pointer. A cursor that takes no record from the read keeps the \<^verbatim>\<open>LastUtmp\<close> of the
  cursor stored for the inode, and the zero value when there is none.
\<close>

definition updateFileRecord ::
  "Inode \<Rightarrow> int \<Rightarrow> Utmp list option \<Rightarrow> UtmpFileReader \<Rightarrow> UtmpFileReader" where
  "updateFileRecord inode size' utmpRecords r =
     (let newFileRecord = \<lparr>Inode = inode, Size = size', LastUtmp = zero_Utmp\<rparr>;
          newFileRecord' =
            (if utmpRecords \<noteq> None \<and> length (the utmpRecords) > 0
             then newFileRecord\<lparr>LastUtmp := last (the utmpRecords)\<rparr>
             else (case fileRecords r inode of
                     Some oldFileRecord \<Rightarrow> newFileRecord\<lparr>LastUtmp := LastUtmp oldFileRecord\<rparr>
                   | None \<Rightarrow> newFileRecord))
      in r\<lparr>fileRecords := (fileRecords r)(inode \<mapsto> newFileRecord')\<rparr>)"

text \<open>\<^verbatim>\<open>deleteOldRecords\<close> (utmp.go, lines 172-187).\<close>

definition deleteOldRecords :: "Inode list \<Rightarrow> UtmpFileReader \<Rightarrow> UtmpFileReader" where
  "deleteOldRecords existingInodes r =
     r\<lparr>fileRecords :=
         (\<lambda>savedInode. if savedInode \<in> set existingInodes then fileRecords r savedInode
                        else None)\<rparr>"

section \<open>Login tailer: \<^verbatim>\<open>ReadNew\<close>\<close>

text \<open>
  What \<^verbatim>\<open>ReadNew\<close> holds while it goes through the paths: the reader, the inodes seen
  so far, the deferred calls of \<^verbatim>\<open>updateFileRecord\<close> (the latest first, as Go runs
  them when the function returns), and the login records collected. A deferred call
  holds the inode, the new size, and what its \<^verbatim>\<open>utmpRecords\<close> variable holds when the
  function returns: the variable belongs to one round of the loop and nothing assigns
  it after that round.
\<close>

record poll_state =
  reader :: UtmpFileReader
  inodes :: "Inode list"
  deferred :: "(Inode \<times> int \<times> Utmp list) list"
  loginRecords :: "LoginRecord list"

text \<open>The inner loop of \<^verbatim>\<open>ReadNew\<close> (utmp.go, lines 157-163).\<close>

fun processRecords ::
  "os_env \<Rightarrow> string \<Rightarrow> Utmp list \<Rightarrow> UtmpFileReader \<Rightarrow> LoginRecord list
    \<Rightarrow> UtmpFileReader \<times> LoginRecord list" where
  "processRecords env path [] r acc = (r, acc)"
| "processRecords env path (utmp # rest) r acc =
     (case processLoginRecord env r utmp of
        (Some loginRecord, r') \<Rightarrow>
          processRecords env path rest r' (acc @ [loginRecord\<lparr>Origin := path\<rparr>])
      | (None, r') \<Rightarrow> processRecords env path rest r' acc)"

text \<open>
  One round of the loop over the paths (utmp.go, lines 92-166). The result is the error
  that makes \<^verbatim>\<open>ReadNew\<close> return from this round, if any, and the state after it.
\<close>

definition readPath :: "os_env \<Rightarrow> string \<Rightarrow> poll_state \<Rightarrow> error option \<times> poll_state" where
  "readPath env path st =
     (case Stat env path of
        StatNotExist \<Rightarrow> (None, st)
      | StatFailed \<Rightarrow> (Some (ErrLookingUpFile path), st)
      | StatOk inode newSize \<Rightarrow>
          (let st1 = st\<lparr>inodes := inodes st @ [inode]\<rparr>;
               found = fileRecords (reader st) inode;
               oldSize = (case found of Some fileRecord \<Rightarrow> Size fileRecord | None \<Rightarrow> 0);
               isKnownFile = (found \<noteq> None \<and> \<not> newSize < oldSize)
           in if \<not> isKnownFile \<and> newSize = 0 then
                (None, st1\<lparr>reader := updateFileRecord inode newSize None (reader st1)\<rparr>)
              else if \<not> isKnownFile \<or> newSize \<noteq> oldSize then
                (case Open env path of
                   None \<Rightarrow>
                     (Some (ErrOpening path),
                      st1\<lparr>deferred := (inode, newSize, []) # deferred st1\<rparr>)
                 | Some f \<Rightarrow>
                     (case readAfter f
                             (if isKnownFile then Some (LastUtmp (the found)) else None) of
                        Inl e \<Rightarrow>
                          (Some (ErrReadingFile path e),
                           st1\<lparr>deferred := (inode, newSize, []) # deferred st1\<rparr>)
                      | Inr utmpRecords \<Rightarrow>
                          if length utmpRecords = 0 then
                            (Some (ErrNoNewRecords path),
                             st1\<lparr>deferred := (inode, newSize, utmpRecords) # deferred st1\<rparr>)
                          else
                            (case processRecords env path utmpRecords (reader st1)
                                    (loginRecords st1) of
                               (r', collected) \<Rightarrow>
                                 (None,
                                  st1\<lparr>reader := r', loginRecords := collected,
                                      deferred :=
                                        (inode, newSize, utmpRecords) # deferred st1\<rparr>))))
              else (None, st1)))"

fun readPaths :: "os_env \<Rightarrow> string list \<Rightarrow> poll_state \<Rightarrow> error option \<times> poll_state" where
  "readPaths env [] st = (None, st)"
| "readPaths env (path # paths) st =
     (case readPath env path st of
        (Some e, st') \<Rightarrow> (Some e, st')
      | (None, st') \<Rightarrow> readPaths env paths st')"

text \<open>
  The deferred calls of \<^verbatim>\<open>updateFileRecord\<close>, run when \<^verbatim>\<open>ReadNew\<close> returns: the one
  deferred last runs first.
\<close>

definition runDeferred ::
  "(Inode \<times> int \<times> Utmp list) list \<Rightarrow> UtmpFileReader \<Rightarrow> UtmpFileReader" where
  "runDeferred ds r =
     fold (\<lambda>(inode, newSize, utmpRecords). updateFileRecord inode newSize (Some utmpRecords))
       ds r"

definition start_poll :: "UtmpFileReader \<Rightarrow> poll_state" where
  "start_poll r = \<lparr>reader = r, inodes = [], deferred = [], loginRecords = []\<rparr>"

text \<open>
  \<^verbatim>\<open>ReadNew\<close> (utmp.go, lines 79-169). \<^verbatim>\<open>sort.Sort(sort.Reverse(sort.StringSlice(paths)))\<close>
  puts the paths in descending byte order. Every return runs the deferred calls: those
  of \<^verbatim>\<open>updateFileRecord\<close> first, then \<^verbatim>\<open>deleteOldRecords\<close>, which was deferred first,
  with the inodes seen by then. A return with an error returns no login records.
\<close>

definition ReadNew ::
  "os_env \<Rightarrow> UtmpFileReader \<Rightarrow> (error + LoginRecord list) \<times> UtmpFileReader" where
  "ReadNew env r =
     (case Glob env (filePattern r) of
        None \<Rightarrow> (Inl ErrExpandPattern, deleteOldRecords [] r)
      | Some paths \<Rightarrow>
          (case readPaths env (rev (sort paths)) (start_poll r) of
             (err, st) \<Rightarrow>
               (let r' = deleteOldRecords (inodes st) (runDeferred (deferred st) (reader st))
                in (case err of Some e \<Rightarrow> (Inl e, r') | None \<Rightarrow> (Inr (loginRecords st), r')))))"

section \<open>User differ: data\<close>

text \<open>\<^verbatim>\<open>type User struct\<close> (user.go, lines 62-70).\<close>

record User =
  Name :: string
  Passwd :: string
  UID :: "32 word"
  GID :: "32 word"
  UserInfo :: string
  Dir :: string
  Shell :: string

text \<open>\<^verbatim>\<open>strconv.Itoa\<close>: the decimal digits of an integer, with a minus sign below zero.\<close>

fun decimal :: "nat \<Rightarrow> string" where
  "decimal n =
     (if n < 10 then [char_of (48 + n)] else decimal (n div 10) @ [char_of (48 + n mod 10)])"

declare decimal.simps [simp del]

definition Itoa :: "int \<Rightarrow> string" where
  "Itoa i = (if i < 0 then CHR ''-'' # decimal (nat (- i)) else decimal (nat i))"

text \<open>
  \<^verbatim>\<open>User.Hash\<close> (user.go, lines 73-83). The digest is the third-party
  \<^verbatim>\<open>github.com/OneOfOne/xxhash\<close>: \<open>Sum64\<close> stands for what \<^verbatim>\<open>xxhash.New64\<close>, a
  sequence of \<^verbatim>\<open>WriteString\<close> calls and \<^verbatim>\<open>Sum64\<close> compute from the bytes written,
  and is a parameter. \<^verbatim>\<open>int(user.UID)\<close> is the unsigned value of the 32 bits.
\<close>

definition Hash :: "(string \<Rightarrow> 64 word) \<Rightarrow> User \<Rightarrow> 64 word" where
  "Hash Sum64 user =
     Sum64 (Name user @ Passwd user @ Itoa (uint (UID user)) @ Itoa (uint (GID user))
            @ Dir user @ Shell user)"

text \<open>
  A value of a \<^verbatim>\<open>common.MapStr\<close>, and \<^verbatim>\<open>toMapStr\<close> (user.go, lines 85-100); the map is
  the list of its entries.
\<close>

datatype field_value =
  String string
  | Uint32 "32 word"

definition toMapStr :: "User \<Rightarrow> (string \<times> field_value) list" where
  "toMapStr user =
     [(''name'', String (Name user)), (''passwd'', String (Passwd user)),
      (''uid'', Uint32 (UID user)), (''gid'', Uint32 (GID user)),
      (''dir'', String (Dir user)), (''shell'', String (Shell user))]
     @ (if UserInfo user \<noteq> [] then [(''user_information'', String (UserInfo user))] else [])"

definition eventTypeState :: string where "eventTypeState = ''state''"
definition eventTypeEvent :: string where "eventTypeEvent = ''event''"
definition eventActionUserExists :: string where "eventActionUserExists = ''existing_user''"
definition eventActionUserAdded :: string where "eventActionUserAdded = ''user_added''"
definition eventActionUserRemoved :: string where "eventActionUserRemoved = ''user_removed''"
definition eventActionUserChanged :: string where "eventActionUserChanged = ''user_changed''"
definition bucketKeyUsers :: string where "bucketKeyUsers = ''users''"
definition bucketKeyStateTimestamp :: string where "bucketKeyStateTimestamp = ''state_timestamp''"

text \<open>
  An \<^verbatim>\<open>mb.Event\<close> as \<^verbatim>\<open>userEvent\<close> builds it (user.go, lines 295-305): the root
  fields \<^verbatim>\<open>event.type\<close> and \<^verbatim>\<open>event.action\<close>, the \<^verbatim>\<open>event.id\<close> that \<^verbatim>\<open>reportState\<close>
  puts there, and the fields of the user.
\<close>

record Event =
  event_type :: string
  event_action :: string
  event_id :: "string option"
  MetricSetFields :: "(string \<times> field_value) list"

definition userEvent :: "User \<Rightarrow> string \<Rightarrow> string \<Rightarrow> Event" where
  "userEvent user eventType eventAction =
     \<lparr>event_type = eventType, event_action = eventAction, event_id = None,
      MetricSetFields = toMapStr user\<rparr>"

datatype user_error =
  ErrGetUsers
  | ErrMarshalTime
  | ErrWritingStateTimestamp
  | ErrEncodingUsers
  | ErrWritingUsers

text \<open>What \<^verbatim>\<open>Fetch\<close> hands to the reporter: \<^verbatim>\<open>report.Event\<close> and \<^verbatim>\<open>report.Error\<close>.\<close>

datatype report =
  ReportEvent Event
  | ReportError user_error

section \<open>User differ: the diff cache\<close>

text \<open>
  Modelled from the spec: the diff cache of section 4.1 (package \<^verbatim>\<open>cache\<close> is not among
  the sources). The cache is an index of the items last seen, keyed by fingerprint; a
  later item replaces an earlier one with the same fingerprint ("last wins").
  \<^verbatim>\<open>diff_and_update\<close> returns the items whose fingerprint is in the new set but not in the
  prior cache, and the items whose fingerprint is in the prior cache but not in the new
  set, and replaces the cache by the index of the new set; \<^verbatim>\<open>is_empty\<close> holds of a cache
  never populated or left empty by the last update. The spec fixes no order of the two
  sequences; here each keeps the order of its index.
\<close>

type_synonym cache = "(64 word \<times> User) list"

definition index_items :: "(User \<Rightarrow> 64 word) \<Rightarrow> User list \<Rightarrow> cache" where
  "index_items fingerprint items = fold (\<lambda>u. AList.update (fingerprint u) u) items []"

definition DiffAndUpdateCache ::
  "(User \<Rightarrow> 64 word) \<Rightarrow> cache \<Rightarrow> User list \<Rightarrow> (User list \<times> User list) \<times> cache" where
  "DiffAndUpdateCache fingerprint c items =
     (let current = index_items fingerprint items
      in ((map snd (filter (\<lambda>(k, u). map_of c k = None) current),
           map snd (filter (\<lambda>(k, u). map_of current k = None) c)),
          current))"

definition IsEmpty :: "cache \<Rightarrow> bool" where
  "IsEmpty c = (c = [])"

section \<open>User differ: \<^verbatim>\<open>compareUsers\<close>\<close>

text \<open>
  \<^verbatim>\<open>missingUserMap\<close> (user.go, lines 314-317): a Go map from uid to user, here the list of
  its entries; a later user replaces an earlier one with the same uid.
\<close>

definition missingUserMap :: "User list \<Rightarrow> (32 word \<times> User) list" where
  "missingUserMap missingFromCache =
     fold (\<lambda>missingUser. AList.update (UID missingUser) missingUser) missingFromCache []"

text \<open>
  The loop over \<^verbatim>\<open>newInCache\<close> (user.go, lines 319-328); the result is \<open>added\<close>,
  \<open>changed\<close> and what is left of the map.
\<close>

fun matchUsers ::
  "User list \<Rightarrow> (32 word \<times> User) list \<Rightarrow> User list \<Rightarrow> User list
    \<Rightarrow> User list \<times> User list \<times> (32 word \<times> User) list" where
  "matchUsers [] m added changed = (added, changed, m)"
| "matchUsers (newUser # rest) m added changed =
     (case map_of m (UID newUser) of
        Some matchingMissingUser \<Rightarrow>
          matchUsers rest (AList.delete (UID matchingMissingUser) m) added (changed @ [newUser])
      | None \<Rightarrow> matchUsers rest m (added @ [newUser]) changed)"

text \<open>
  \<^verbatim>\<open>compareUsers\<close> after its first line (user.go, lines 312-344): \<open>(added, removed, changed)\<close>
  from the two sides of the diff. Go ranges over what is left of the map in no fixed
  order; \<open>removed\<close> lists it in the order of its entries.
\<close>

definition classifyUsers :: "User list \<Rightarrow> User list \<Rightarrow> User list \<times> User list \<times> User list" where
  "classifyUsers newInCache missingFromCache =
     (if length newInCache > 0 \<and> length missingFromCache > 0 then
        (case matchUsers newInCache (missingUserMap missingFromCache) [] [] of
           (added, changed, left) \<Rightarrow> (added, map snd left, changed))
      else (newInCache, missingFromCache, []))"

text \<open>
  \<^verbatim>\<open>compareUsers\<close> (user.go, lines 309-345), with the cache it updates: the lists
  \<open>(added, removed, changed)\<close> and the cache after the call.
\<close>

definition compareUsers ::
  "(string \<Rightarrow> 64 word) \<Rightarrow> cache \<Rightarrow> User list
    \<Rightarrow> (User list \<times> User list \<times> User list) \<times> cache" where
  "compareUsers Sum64 c users =
     (case DiffAndUpdateCache (Hash Sum64) c users of
        ((newInCache, missingFromCache), c') \<Rightarrow>
          (classifyUsers newInCache missingFromCache, c'))"

section \<open>User differ: \<^verbatim>\<open>Fetch\<close>\<close>

text \<open>
  What the metric set calls outside this file: the digest of \<^verbatim>\<open>User.Hash\<close>, the gob
  encoding of one user and \<^verbatim>\<open>time.Time.MarshalBinary\<close> (\<open>None\<close> is an error), and
  \<^verbatim>\<open>bucket.Store\<close> of the datastore (\<open>None\<close> is an error, the bucket after the write
  otherwise).
\<close>

record user_env =
  xxhash :: "string \<Rightarrow> 64 word"
  Encode :: "User \<Rightarrow> string option"
  MarshalBinary :: "time \<Rightarrow> string option"
  Store :: "(string \<rightharpoonup> string) \<Rightarrow> string \<Rightarrow> string \<Rightarrow> (string \<rightharpoonup> string) option"

text \<open>
  \<^verbatim>\<open>type MetricSet struct\<close> (user.go, lines 52-59). Of the configuration only
  \<^verbatim>\<open>config.effectiveStatePeriod()\<close> is read, a \<^verbatim>\<open>time.Duration\<close> in nanoseconds; its
  declaration is not among the sources.
\<close>

record MetricSet =
  effectiveStatePeriod :: int
  cache :: cache
  bucket :: "string \<rightharpoonup> string"
  lastState :: time

text \<open>
  What one call of \<^verbatim>\<open>Fetch\<close> reads from outside: the result of \<^verbatim>\<open>GetUsers\<close> (\<open>None\<close>
  is an error), the clock when \<^verbatim>\<open>time.Since\<close> reads it, the clock when \<^verbatim>\<open>reportState\<close>
  reads it, and the identifier \<^verbatim>\<open>uuid.NewV4\<close> returns.
\<close>

record poll_input =
  GetUsers :: "User list option"
  now_Since :: time
  now_reportState :: time
  stateID :: string

text \<open>
  \<^verbatim>\<open>time.Since(t)\<close> is \<^verbatim>\<open>time.Now().Sub(t)\<close>: the difference as a \<^verbatim>\<open>Duration\<close>, which
  is the largest or the smallest 64-bit value when the difference does not fit.
\<close>

definition Since :: "time \<Rightarrow> time \<Rightarrow> int" where
  "Since now t = max (- (2 ^ 63)) (min (2 ^ 63 - 1) (now - t))"

text \<open>\<^verbatim>\<open>saveUsersToDisk\<close> (user.go, lines 188-204).\<close>

definition saveUsersToDisk ::
  "user_env \<Rightarrow> User list \<Rightarrow> (string \<rightharpoonup> string) \<Rightarrow> user_error option \<times> (string \<rightharpoonup> string)" where
  "saveUsersToDisk env users b =
     (case those (map (Encode env) users) of
        None \<Rightarrow> (Some ErrEncodingUsers, b)
      | Some encoded \<Rightarrow>
          (case Store env b bucketKeyUsers (concat encoded) of
             None \<Rightarrow> (Some ErrWritingUsers, b)
           | Some b' \<Rightarrow> (None, b')))"

text \<open>
  \<^verbatim>\<open>reportState\<close> (user.go, lines 244-270): the events reported, the error returned, and
  the metric set after the call. \<^verbatim>\<open>ms.cache\<close> is never nil once \<^verbatim>\<open>New\<close> has run.
\<close>

definition reportState ::
  "user_env \<Rightarrow> poll_input \<Rightarrow> MetricSet \<Rightarrow> User list
    \<Rightarrow> report list \<times> user_error option \<times> MetricSet" where
  "reportState env inp ms users =
     (let ms1 = ms\<lparr>lastState := now_reportState inp\<rparr>;
          events = map (\<lambda>user. ReportEvent
                      ((userEvent user eventTypeState eventActionUserExists)
                         \<lparr>event_id := Some (stateID inp)\<rparr>)) users;
          ms2 = ms1\<lparr>cache := snd (DiffAndUpdateCache (Hash (xxhash env)) (cache ms1) users)\<rparr>
      in (case MarshalBinary env (lastState ms2) of
            None \<Rightarrow> (events, Some ErrMarshalTime, ms2)
          | Some timeBytes \<Rightarrow>
              (case Store env (bucket ms2) bucketKeyStateTimestamp timeBytes of
                 None \<Rightarrow> (events, Some ErrWritingStateTimestamp, ms2)
               | Some b \<Rightarrow>
                   (case saveUsersToDisk env users b of
                      (err, b') \<Rightarrow> (events, err, ms2\<lparr>bucket := b'\<rparr>)))))"

text \<open>\<^verbatim>\<open>reportChanges\<close> (user.go, lines 273-293).\<close>

definition reportChanges ::
  "user_env \<Rightarrow> MetricSet \<Rightarrow> User list \<Rightarrow> report list \<times> user_error option \<times> MetricSet" where
  "reportChanges env ms users =
     (case compareUsers (xxhash env) (cache ms) users of
        ((added, removed, changed), c') \<Rightarrow>
          (let events =
                 map (\<lambda>user. ReportEvent (userEvent user eventTypeEvent eventActionUserAdded))
                   added
                 @ map (\<lambda>user. ReportEvent
                          (userEvent user eventTypeEvent eventActionUserRemoved)) removed
                 @ map (\<lambda>user. ReportEvent
                          (userEvent user eventTypeEvent eventActionUserChanged)) changed;
               ms1 = ms\<lparr>cache := c'\<rparr>
           in if length added > 0 \<or> length removed > 0 \<or> length changed > 0 then
                (case saveUsersToDisk env users (bucket ms1) of
                   (err, b') \<Rightarrow> (events, err, ms1\<lparr>bucket := b'\<rparr>))
              else (events, None, ms1)))"

definition report_error :: "user_error option \<Rightarrow> report list" where
  "report_error err = (case err of Some e \<Rightarrow> [ReportError e] | None \<Rightarrow> [])"

text \<open>
  \<^verbatim>\<open>Fetch\<close> (user.go, lines 215-241): everything handed to the reporter, in order, and
  the metric set after the call.
\<close>

definition Fetch :: "user_env \<Rightarrow> poll_input \<Rightarrow> MetricSet \<Rightarrow> report list \<times> MetricSet" where
  "Fetch env inp ms =
     (case GetUsers inp of
        None \<Rightarrow> ([ReportError ErrGetUsers], ms)
      | Some users \<Rightarrow>
          (let needsStateUpdate =
                 (Since (now_Since inp) (lastState ms) > effectiveStatePeriod ms)
           in case (if needsStateUpdate \<or> IsEmpty (cache ms) then
                      (case reportState env inp ms users of
                         (events, err, ms') \<Rightarrow> (events @ report_error err, ms'))
                    else ([], ms)) of
                (reported, ms1) \<Rightarrow>
                  (case reportChanges env ms1 users of
                     (events, err, ms2) \<Rightarrow> (reported @ events @ report_error err, ms2))))"

section \<open>Scenarios\<close>

text \<open>
  The login and logout records of scenario 4 of the spec (section 8): alice logs in on
  \<^verbatim>\<open>pts/0\<close> with pid 42 from 10.0.0.5, and the session ends.
\<close>

definition alice_login :: Utmp where
  "alice_login = \<lparr>UtType = 7, UtPid = 42, UtLine = ''pts/0'', UtUser = ''alice'',
     UtHost = ''10.0.0.5'', UtTv = 1000, UtAddrV6 = (0x0500000A, 0, 0, 0)\<rparr>"

definition alice_logout :: Utmp where
  "alice_logout = \<lparr>UtType = 8, UtPid = 42, UtLine = ''pts/0'', UtUser = [],
     UtHost = [], UtTv = 2000, UtAddrV6 = (0, 0, 0, 0)\<rparr>"

text \<open>A boot-time record that is not the reboot marker, and the reboot marker.\<close>

definition odd_boot :: Utmp where
  "odd_boot = \<lparr>UtType = 2, UtPid = 0, UtLine = ''tty1'', UtUser = ''reboot'',
     UtHost = ''5.4.0'', UtTv = 500, UtAddrV6 = (0, 0, 0, 0)\<rparr>"

definition reboot_marker :: Utmp where
  "reboot_marker = \<lparr>UtType = 2, UtPid = 0, UtLine = ''~'', UtUser = ''reboot'',
     UtHost = ''5.4.0'', UtTv = 500, UtAddrV6 = (0, 0, 0, 0)\<rparr>"

text \<open>A host whose only user is alice, with uid 1000, and a reader that has seen nothing.\<close>

definition passwd_alice :: "string \<Rightarrow> string option" where
  "passwd_alice name = (if name = ''alice'' then Some ''1000'' else None)"

definition fresh_reader :: UtmpFileReader where
  "fresh_reader =
     \<lparr>filePattern = ''/var/log/wtmp*'', fileRecords = Map.empty, loginSessions = Map.empty\<rparr>"

text \<open>The file \<^verbatim>\<open>/var/log/wtmp\<close> with the two records, read without an error.\<close>

definition wtmp_file :: utmp_file where
  "wtmp_file =
     \<lparr>records = [alice_login, alice_logout], read_fails = False, seek_fails = False\<rparr>"

text \<open>
  A host where the pattern matches \<^verbatim>\<open>/var/log/wtmp\<close> alone: inode 7, 768 bytes (two
  records of 384 bytes).
\<close>

definition wtmp_glob :: "string \<Rightarrow> string list option" where
  "wtmp_glob pattern = Some [''/var/log/wtmp'']"

definition wtmp_stat :: "string \<Rightarrow> stat_result" where
  "wtmp_stat path = (if path = ''/var/log/wtmp'' then StatOk 7 768 else StatNotExist)"

definition wtmp_open :: "string \<Rightarrow> utmp_file option" where
  "wtmp_open path = (if path = ''/var/log/wtmp'' then Some wtmp_file else None)"

definition wtmp_host :: os_env where
  "wtmp_host =
     \<lparr>Glob = wtmp_glob, Stat = wtmp_stat, Open = wtmp_open, user_Lookup = passwd_alice\<rparr>"

text \<open>
  The same host when the file cannot be read to its end: \<^verbatim>\<open>ReadNextUtmp\<close> decodes the
  login of alice and then returns an error that is not \<^verbatim>\<open>io.EOF\<close> (the second record
  is cut short).
\<close>

definition broken_wtmp :: utmp_file where
  "broken_wtmp = \<lparr>records = [alice_login], read_fails = True, seek_fails = False\<rparr>"

definition broken_open :: "string \<Rightarrow> utmp_file option" where
  "broken_open path = (if path = ''/var/log/wtmp'' then Some broken_wtmp else None)"

definition broken_host :: os_env where
  "broken_host =
     \<lparr>Glob = wtmp_glob, Stat = wtmp_stat, Open = broken_open, user_Lookup = passwd_alice\<rparr>"

text \<open>A reader that has read the first record of inode 7 in an earlier poll.\<close>

definition known_reader :: UtmpFileReader where
  "known_reader =
     \<lparr>filePattern = ''/var/log/wtmp*'',
      fileRecords = [7 \<mapsto> \<lparr>Inode = 7, Size = 384, LastUtmp = alice_login\<rparr>],
      loginSessions = Map.empty\<rparr>"

text \<open>The same host when \<^verbatim>\<open>/var/log/wtmp\<close> is empty.\<close>

definition empty_stat :: "string \<Rightarrow> stat_result" where
  "empty_stat path = (if path = ''/var/log/wtmp'' then StatOk 7 0 else StatNotExist)"

definition empty_host :: os_env where
  "empty_host =
     \<lparr>Glob = wtmp_glob, Stat = empty_stat, Open = wtmp_open, user_Lookup = passwd_alice\<rparr>"

text \<open>
  A host after a rotation: the pattern matches \<^verbatim>\<open>/var/log/wtmp\<close> and
  \<^verbatim>\<open>/var/log/wtmp.1\<close>; the rotated file is inode 8 with 384 bytes, and \<^verbatim>\<open>os.Stat\<close> of
  the live file fails with an error other than "does not exist". The reader holds a
  cursor for each of the two inodes.
\<close>

definition rotated_glob :: "string \<Rightarrow> string list option" where
  "rotated_glob pattern = Some [''/var/log/wtmp'', ''/var/log/wtmp.1'']"

definition failing_stat :: "string \<Rightarrow> stat_result" where
  "failing_stat path = (if path = ''/var/log/wtmp.1'' then StatOk 8 384 else StatFailed)"

definition failing_host :: os_env where
  "failing_host =
     \<lparr>Glob = rotated_glob, Stat = failing_stat, Open = wtmp_open,
      user_Lookup = passwd_alice\<rparr>"

definition rotated_reader :: UtmpFileReader where
  "rotated_reader =
     \<lparr>filePattern = ''/var/log/wtmp*'',
      fileRecords = [7 \<mapsto> \<lparr>Inode = 7, Size = 768, LastUtmp = alice_logout\<rparr>,
                     8 \<mapsto> \<lparr>Inode = 8, Size = 384, LastUtmp = alice_login\<rparr>],
      loginSessions = Map.empty\<rparr>"

text \<open>A host where \<^verbatim>\<open>filepath.Glob\<close> rejects the pattern.\<close>

definition bad_glob :: "string \<Rightarrow> string list option" where
  "bad_glob pattern = None"

definition bad_pattern_host :: os_env where
  "bad_pattern_host =
     \<lparr>Glob = bad_glob, Stat = failing_stat, Open = wtmp_open, user_Lookup = passwd_alice\<rparr>"

text \<open>
  Accounts. alice with her shell changed (scenario 3 of the spec), with her comment
  changed, and a second account with her uid; root and a second account with uid 0;
  bob.
\<close>

definition alice_bash :: User where
  "alice_bash = \<lparr>Name = ''alice'', Passwd = ''x'', UID = 1000, GID = 1000,
     UserInfo = ''Alice'', Dir = ''/home/alice'', Shell = ''/bin/bash''\<rparr>"

definition alice_zsh :: User where
  "alice_zsh = \<lparr>Name = ''alice'', Passwd = ''x'', UID = 1000, GID = 1000,
     UserInfo = ''Alice'', Dir = ''/home/alice'', Shell = ''/bin/zsh''\<rparr>"

definition alice_renamed :: User where
  "alice_renamed = \<lparr>Name = ''alice'', Passwd = ''x'', UID = 1000, GID = 1000,
     UserInfo = ''Alice Liddell'', Dir = ''/home/alice'', Shell = ''/bin/bash''\<rparr>"

definition admin_1000 :: User where
  "admin_1000 = \<lparr>Name = ''admin'', Passwd = ''x'', UID = 1000, GID = 1000,
     UserInfo = [], Dir = ''/home/admin'', Shell = ''/bin/sh''\<rparr>"

definition root_user :: User where
  "root_user = \<lparr>Name = ''root'', Passwd = ''x'', UID = 0, GID = 0,
     UserInfo = ''root'', Dir = ''/root'', Shell = ''/bin/bash''\<rparr>"

definition toor_user :: User where
  "toor_user = \<lparr>Name = ''toor'', Passwd = ''x'', UID = 0, GID = 0,
     UserInfo = [], Dir = ''/root'', Shell = ''/bin/sh''\<rparr>"

definition bob :: User where
  "bob = \<lparr>Name = ''bob'', Passwd = ''x'', UID = 1001, GID = 1001,
     UserInfo = [], Dir = ''/home/bob'', Shell = ''/bin/bash''\<rparr>"

text \<open>
  An environment to run the metric set in. The theorems hold for every digest,
  encoding and store; these stand in for them where a statement needs values: the
  digest adds up the bytes, and the store never fails.
\<close>

definition byte_sum :: "string \<Rightarrow> 64 word" where
  "byte_sum s = of_nat (sum_list (map of_char s))"

definition encode_line :: "User \<Rightarrow> string option" where
  "encode_line user = Some (Name user @ '':'' @ Itoa (uint (User.UID user)) @ '';'')"

definition marshal_decimal :: "time \<Rightarrow> string option" where
  "marshal_decimal t = Some (Itoa t)"

definition store_put ::
  "(string \<rightharpoonup> string) \<Rightarrow> string \<Rightarrow> string \<Rightarrow> (string \<rightharpoonup> string) option" where
  "store_put b key blob = Some (b(key \<mapsto> blob))"

definition test_env :: user_env where
  "test_env = \<lparr>xxhash = byte_sum, Encode = encode_line, MarshalBinary = marshal_decimal,
     Store = store_put\<rparr>"

text \<open>
  A metric set with a state period of twelve hours (43200000000000 ns) whose cache
  holds root and alice, and polls of it: one exactly a state period after the last
  resync, one a nanosecond later, and one a minute after the last resync that finds
  the comment of alice changed.
\<close>

definition synced :: MetricSet where
  "synced = \<lparr>effectiveStatePeriod = 43200000000000,
     cache = index_items (Hash byte_sum) [root_user, alice_bash],
     bucket = Map.empty, lastState = 63900000000000000000\<rparr>"

definition poll_at_period :: poll_input where
  "poll_at_period = \<lparr>GetUsers = Some [root_user, alice_bash],
     now_Since = 63900043200000000000, now_reportState = 63900043200000000007,
     stateID = ''6ba7b810-9dad-41d1-80b4-00c04fd430c8''\<rparr>"

definition poll_after_period :: poll_input where
  "poll_after_period = \<lparr>GetUsers = Some [root_user, alice_bash],
     now_Since = 63900043200000000001, now_reportState = 63900043200000000007,
     stateID = ''6ba7b810-9dad-41d1-80b4-00c04fd430c8''\<rparr>"

definition poll_renamed :: poll_input where
  "poll_renamed = \<lparr>GetUsers = Some [root_user, alice_renamed],
     now_Since = 63900000060000000000, now_reportState = 63900000060000000007,
     stateID = ''6ba7b810-9dad-41d1-80b4-00c04fd430c8''\<rparr>"

section \<open>Vocabulary of the statements\<close>

text \<open>The record a logout carries: the record's own line and time, the rest replayed.\<close>

definition logout_of :: "Utmp \<Rightarrow> LoginRecord \<Rightarrow> LoginRecord" where
  "logout_of utmp savedRecord =
     (newLoginRecord utmp)\<lparr>Type := userLogoutRecord, Username := Username savedRecord,
        LoginRecord.UID := LoginRecord.UID savedRecord, PID := PID savedRecord,
        IP := IP savedRecord, Hostname := Hostname savedRecord\<rparr>"

text \<open>The record a login produces, which is also the entry stored for its line.\<close>

definition login_of :: "os_env \<Rightarrow> Utmp \<Rightarrow> LoginRecord" where
  "login_of env utmp =
     (newLoginRecord utmp)\<lparr>Type := userLoginRecord, Username := UtUser utmp,
        LoginRecord.UID := lookupUsername env (UtUser utmp), PID := UtPid utmp,
        IP := Some (newIP (UtAddrV6 utmp)), Hostname := UtHost utmp\<rparr>"

text \<open>The inodes of the paths that \<^verbatim>\<open>os.Stat\<close> finds, in the order of the paths.\<close>

definition seen_inodes :: "os_env \<Rightarrow> string list \<Rightarrow> Inode list" where
  "seen_inodes env paths =
     concat (map (\<lambda>path. case Stat env path of StatOk inode newSize \<Rightarrow> [inode] | _ \<Rightarrow> [])
               paths)"

text \<open>
  The last record a cursor without new records carries over: that of the cursor stored
  for the inode, and the zero value when there is none.
\<close>

definition carried :: "UtmpFileReader \<Rightarrow> Inode \<Rightarrow> Utmp" where
  "carried r inode =
     (case fileRecords r inode of
        Some oldFileRecord \<Rightarrow> LastUtmp oldFileRecord
      | None \<Rightarrow> zero_Utmp)"

text \<open>The records a deferred call of \<^verbatim>\<open>updateFileRecord\<close> finds in \<^verbatim>\<open>utmpRecords\<close>.\<close>

definition returned_records :: "(Inode \<times> int \<times> Utmp list) \<Rightarrow> Utmp list" where
  "returned_records d = snd (snd d)"

text \<open>A uid map whose every entry is stored under the uid of its user.\<close>

definition keyed_by_uid :: "(32 word \<times> User) list \<Rightarrow> bool" where
  "keyed_by_uid m = (\<forall>(k, u) \<in> set m. User.UID u = k)"

text \<open>
  The classification as claim C5 words it, on the two sides of the diff: go through
  the newly-present accounts in order; one whose uid matches a newly-absent account
  not yet consumed is changed and consumes it; every other one is added; the
  newly-absent accounts left at the end are removed. The result is
  \<open>(added, removed, changed)\<close>.
\<close>

fun pairUsers :: "User list \<Rightarrow> User list \<Rightarrow> User list \<times> User list \<times> User list" where
  "pairUsers [] absent = ([], absent, [])"
| "pairUsers (n # present) absent =
     (if User.UID n \<in> User.UID ` set absent then
        (case pairUsers present (filter (\<lambda>m. User.UID m \<noteq> User.UID n) absent) of
           (added, removed, changed) \<Rightarrow> (added, removed, n # changed))
      else
        (case pairUsers present absent of
           (added, removed, changed) \<Rightarrow> (n # added, removed, changed)))"

text \<open>
  The events of a resync among what \<^verbatim>\<open>Fetch\<close> reports (type \<^verbatim>\<open>state\<close>), the events of
  changes (type \<^verbatim>\<open>event\<close>: \<^verbatim>\<open>user_added\<close>, \<^verbatim>\<open>user_removed\<close>, \<^verbatim>\<open>user_changed\<close>), and
  the \<^verbatim>\<open>existing_user\<close> event of one account.
\<close>

definition state_events :: "report list \<Rightarrow> Event list" where
  "state_events reports =
     concat (map (\<lambda>x. case x of
                         ReportEvent e \<Rightarrow> (if event_type e = eventTypeState then [e] else [])
                       | ReportError err \<Rightarrow> []) reports)"

definition change_events :: "report list \<Rightarrow> Event list" where
  "change_events reports =
     concat (map (\<lambda>x. case x of
                         ReportEvent e \<Rightarrow> (if event_type e = eventTypeEvent then [e] else [])
                       | ReportError err \<Rightarrow> []) reports)"

definition existing_user :: "string \<Rightarrow> User \<Rightarrow> Event" where
  "existing_user sid user =
     (userEvent user eventTypeState eventActionUserExists)\<lparr>event_id := Some sid\<rparr>"

section \<open>The session table\<close>

lemmas utmp_types = RUN_LVL_def BOOT_TIME_def USER_PROCESS_def DEAD_PROCESS_def

lemma user_process_stores:
  "UtType utmp = USER_PROCESS \<Longrightarrow>
   processLoginRecord env r utmp =
     (Some (login_of env utmp),
      r\<lparr>loginSessions := (loginSessions r)(TTY (newLoginRecord utmp) \<mapsto> login_of env utmp)\<rparr>)"
  by (simp add: processLoginRecord_def login_of_def newLoginRecord_def Let_def utmp_types)

lemma dead_process_found:
  "UtType utmp = DEAD_PROCESS \<Longrightarrow>
   loginSessions r (TTY (newLoginRecord utmp)) = Some savedRecord \<Longrightarrow>
   processLoginRecord env r utmp = (Some (logout_of utmp savedRecord), r)"
  by (simp add: processLoginRecord_def logout_of_def Let_def utmp_types)

lemma dead_process_found_part0:
  "UtType utmp = DEAD_PROCESS \<Longrightarrow>
   loginSessions r (TTY (newLoginRecord utmp)) = Some savedRecord \<Longrightarrow>
   processLoginRecord_part0 env r utmp = (Some (logout_of utmp savedRecord), r)"
  by (simp add: processLoginRecord_part0_def logout_of_def Let_def utmp_types)

text \<open>
  Claim C1, as the code has it. A dead-process record whose line has an entry in the
  session table yields a \<^verbatim>\<open>user_logout\<close> record with the username, uid, pid, ip and
  hostname of that entry, in utmp.go and in \<^verbatim>\<open>part_000\<close> alike, and the reader is
  returned as it was: the entry stays in the table. So after a user-process record
  and a dead-process record on the same line, the table holds the login of that line.
\<close>

theorem dead_process_logout_keeps_entry:
  assumes "UtType utmp = DEAD_PROCESS"
    and "loginSessions r (TTY (newLoginRecord utmp)) = Some savedRecord"
  shows "processLoginRecord env r utmp = (Some (logout_of utmp savedRecord), r)
       \<and> processLoginRecord_part0 env r utmp = (Some (logout_of utmp savedRecord), r)
       \<and> Username (logout_of utmp savedRecord) = Username savedRecord
       \<and> LoginRecord.UID (logout_of utmp savedRecord) = LoginRecord.UID savedRecord
       \<and> PID (logout_of utmp savedRecord) = PID savedRecord
       \<and> IP (logout_of utmp savedRecord) = IP savedRecord
       \<and> Hostname (logout_of utmp savedRecord) = Hostname savedRecord
       \<and> Type (logout_of utmp savedRecord) = userLogoutRecord
       \<and> (\<forall>login r0. UtType login = USER_PROCESS \<and> UtLine login = UtLine utmp \<longrightarrow>
            loginSessions
              (snd (processLoginRecord env (snd (processLoginRecord env r0 login)) utmp))
              (TTY (newLoginRecord utmp)) = Some (login_of env login))"
proof -
  have seq: "loginSessions
              (snd (processLoginRecord env (snd (processLoginRecord env r0 login)) utmp))
              (TTY (newLoginRecord utmp)) = Some (login_of env login)"
    if "UtType login = USER_PROCESS" and "UtLine login = UtLine utmp" for login r0
  proof -
    let ?r1 = "snd (processLoginRecord env r0 login)"
    have tty: "TTY (newLoginRecord login) = TTY (newLoginRecord utmp)"
      using that(2) by (simp add: newLoginRecord_def)
    have stored: "loginSessions ?r1 (TTY (newLoginRecord utmp)) = Some (login_of env login)"
      using that(1) tty by (simp add: user_process_stores)
    show ?thesis
      using dead_process_found [OF assms(1) stored] stored by simp
  qed
  show ?thesis
    using dead_process_found [OF assms] dead_process_found_part0 [OF assms] seq
    by (simp add: logout_of_def)
qed

lemma alice_stored:
  "loginSessions (snd (processLoginRecord wtmp_host fresh_reader alice_login))
     (TTY (newLoginRecord alice_logout)) = Some (login_of wtmp_host alice_login)"
  by (simp add: user_process_stores alice_login_def alice_logout_def utmp_types
      newLoginRecord_def)

lemma alice_uid: "lookupUsername wtmp_host ''alice'' = 1000"
  by (simp add: lookupUsername_def wtmp_host_def passwd_alice_def Atoi_def digit_of_def
      Let_def)

lemma alice_ip: "newIP (0x0500000A, 0, 0, 0) = [10, 0, 0, 5]"
  by (simp add: newIP_def PutUint32_def)

text \<open>
  The theorem at scenario 4: the logout of alice on \<^verbatim>\<open>pts/0\<close> carries her name, uid
  1000, pid 42 and address 10.0.0.5, and returns the reader it was given.
\<close>

theorem dead_process_logout_keeps_entry_witness:
  "UtType alice_logout = DEAD_PROCESS
   \<and> loginSessions (snd (processLoginRecord wtmp_host fresh_reader alice_login))
       (TTY (newLoginRecord alice_logout)) = Some (login_of wtmp_host alice_login)
   \<and> processLoginRecord wtmp_host
        (snd (processLoginRecord wtmp_host fresh_reader alice_login)) alice_logout =
       (Some (logout_of alice_logout (login_of wtmp_host alice_login)),
        snd (processLoginRecord wtmp_host fresh_reader alice_login))
   \<and> Username (logout_of alice_logout (login_of wtmp_host alice_login)) = ''alice''
   \<and> LoginRecord.UID (logout_of alice_logout (login_of wtmp_host alice_login)) = 1000
   \<and> PID (logout_of alice_logout (login_of wtmp_host alice_login)) = 42
   \<and> IP (logout_of alice_logout (login_of wtmp_host alice_login)) = Some [10, 0, 0, 5]"
proof -
  have t: "UtType alice_logout = DEAD_PROCESS"
    by (simp add: alice_logout_def utmp_types)
  show ?thesis
    using dead_process_logout_keeps_entry [OF t alice_stored, of wtmp_host] t alice_stored
      alice_uid alice_ip
    by (simp add: logout_of_def login_of_def alice_login_def)
qed

text \<open>
  Claim C1 as stated fails at scenario 4: after the login and the logout of alice on
  \<^verbatim>\<open>pts/0\<close> the session table is not empty, it still maps \<^verbatim>\<open>pts/0\<close> to her login;
  \<^verbatim>\<open>part_000\<close> leaves the table non-empty as well.
\<close>

theorem login_logout_leaves_entry:
  "loginSessions
     (snd (processLoginRecord wtmp_host
             (snd (processLoginRecord wtmp_host fresh_reader alice_login)) alice_logout))
     ''pts/0'' = Some (login_of wtmp_host alice_login)
   \<and> loginSessions
     (snd (processLoginRecord wtmp_host
             (snd (processLoginRecord wtmp_host fresh_reader alice_login)) alice_logout))
     \<noteq> Map.empty
   \<and> loginSessions
     (snd (processLoginRecord_part0 wtmp_host
             (snd (processLoginRecord_part0 wtmp_host fresh_reader alice_login)) alice_logout))
     \<noteq> Map.empty"
  by (simp add: processLoginRecord_def processLoginRecord_part0_def Let_def
      newLoginRecord_def login_of_def alice_login_def alice_logout_def fresh_reader_def
      utmp_types)

text \<open>
  Claim C3, as the code has it. For a boot-time record with line \<^verbatim>\<open>~\<close> and user
  \<^verbatim>\<open>reboot\<close>, both readers return a boot record and clear the session table. For
  every other boot-time record, utmp.go returns nil ("Ignore unknown record") and
  leaves the table as it is: the record is dropped; only \<^verbatim>\<open>part_000\<close> returns a record
  of kind unknown for it.
\<close>

theorem boot_time_record:
  assumes "UtType utmp = BOOT_TIME"
  shows "(UtLine utmp = ''~'' \<and> UtUser utmp = ''reboot'' \<longrightarrow>
            processLoginRecord env r utmp =
              (Some ((newLoginRecord utmp)\<lparr>Type := bootRecord\<rparr>),
               r\<lparr>loginSessions := Map.empty\<rparr>)
          \<and> processLoginRecord_part0 env r utmp =
              (Some ((newLoginRecord utmp)\<lparr>Type := bootRecord\<rparr>),
               r\<lparr>loginSessions := Map.empty\<rparr>))
       \<and> (\<not> (UtLine utmp = ''~'' \<and> UtUser utmp = ''reboot'') \<longrightarrow>
            processLoginRecord env r utmp = (None, r)
          \<and> processLoginRecord_part0 env r utmp =
              (Some ((newLoginRecord utmp)\<lparr>Type := unknownRecord\<rparr>), r))"
  using assms
  by (simp add: processLoginRecord_def processLoginRecord_part0_def Let_def utmp_types)

theorem boot_time_record_witness:
  "UtType odd_boot = BOOT_TIME \<and> UtType reboot_marker = BOOT_TIME
   \<and> processLoginRecord wtmp_host fresh_reader odd_boot = (None, fresh_reader)
   \<and> processLoginRecord_part0 wtmp_host fresh_reader odd_boot =
       (Some ((newLoginRecord odd_boot)\<lparr>Type := unknownRecord\<rparr>), fresh_reader)
   \<and> processLoginRecord wtmp_host
        (snd (processLoginRecord wtmp_host fresh_reader alice_login)) reboot_marker =
       (Some ((newLoginRecord reboot_marker)\<lparr>Type := bootRecord\<rparr>), fresh_reader)"
proof -
  have t1: "UtType odd_boot = BOOT_TIME" and t2: "UtType reboot_marker = BOOT_TIME"
    by (simp_all add: odd_boot_def reboot_marker_def utmp_types)
  have l: "UtType alice_login = USER_PROCESS"
    by (simp add: alice_login_def utmp_types)
  show ?thesis
    using boot_time_record [OF t1, of wtmp_host fresh_reader]
      boot_time_record [OF t2, of wtmp_host
        "snd (processLoginRecord wtmp_host fresh_reader alice_login)"]
      t1 t2
    by (simp add: odd_boot_def reboot_marker_def user_process_stores [OF l] fresh_reader_def)
qed

text \<open>
  Claim C3 as stated fails in utmp.go: a boot-time record on line \<^verbatim>\<open>tty1\<close> produces
  no record at all, so none of kind unknown.
\<close>

theorem odd_boot_is_dropped:
  "UtType odd_boot = BOOT_TIME \<and> UtLine odd_boot \<noteq> ''~''
   \<and> fst (processLoginRecord wtmp_host fresh_reader odd_boot) = None
   \<and> map_option Type (fst (processLoginRecord wtmp_host fresh_reader odd_boot))
       \<noteq> Some unknownRecord"
  by (simp add: processLoginRecord_def Let_def odd_boot_def utmp_types)

section \<open>Resuming after the last known record\<close>

lemma readAll_part0_eq:
  "readAll_part0 f rest acc =
     (if read_fails f then Inl ErrReadingEntry else Inr (acc @ rest))"
  by (induction rest arbitrary: acc) auto

lemma readAfter_loop_Nil:
  "readAfter_loop f l [] reached acc =
     (if read_fails f then Inl ErrReadingEntry
      else if \<not> reached \<and> l \<noteq> None then
        (if seek_fails f then Inl ErrReadingFromBeginning
         else readAfter_loop f l (records f) True acc)
      else Inr acc)"
  by (subst readAfter_loop.simps) simp

lemma readAfter_loop_Cons:
  "readAfter_loop f l (u # rest) reached acc =
     readAfter_loop f l rest
       (if \<not> reached \<and> l \<noteq> None \<and> DeepEqual (UtmpPointer u) (UtmpStruct (the l))
        then True else reached)
       (if reached then acc @ [u] else acc)"
  by (subst readAfter_loop.simps) simp

lemma readAfter_loop_reached:
  "readAfter_loop f l rest True acc =
     (if read_fails f then Inl ErrReadingEntry else Inr (acc @ rest))"
proof (induction rest arbitrary: acc)
  case Nil
  show ?case by (simp add: readAfter_loop_Nil)
next
  case (Cons u us)
  show ?case by (simp add: readAfter_loop_Cons Cons)
qed

text \<open>
  A scan of utmp.go never reaches the new records: the pointer and the struct are of
  distinct types, so no record is deeply equal to the last known one, and the scan
  ends by reading the file again from its start.
\<close>

lemma readAfter_loop_scanning:
  "readAfter_loop f (Some l) rest False [] =
     (if read_fails f then Inl ErrReadingEntry
      else if seek_fails f then Inl ErrReadingFromBeginning else Inr (records f))"
proof (induction rest)
  case Nil
  show ?case by (simp add: readAfter_loop_Nil readAfter_loop_reached)
next
  case (Cons u us)
  show ?case by (simp add: readAfter_loop_Cons Cons)
qed

lemma readAfter_Some:
  "readAfter f (Some l) =
     (if read_fails f then Inl ErrReadingEntry
      else if seek_fails f then Inl ErrReadingFromBeginning else Inr (records f))"
  by (simp add: readAfter_def readAfter_loop_scanning)

lemma readAfter_None:
  "readAfter f None = (if read_fails f then Inl ErrReadingEntry else Inr (records f))"
  by (simp add: readAfter_def readAfter_loop_reached)

text \<open>
  The reader of \<^verbatim>\<open>part_000\<close> does what the comment of \<^verbatim>\<open>readAfter\<close> says: it returns
  the records after the first one equal to the last known record, and the whole file
  when there is none.
\<close>

lemma readAfter_loop_part0_reached:
  "readAfter_loop_part0 f l rest True acc =
     (if read_fails f then Inl ErrReadingEntry else Inr (acc @ rest))"
  by (induction rest arbitrary: acc) auto

lemma readAfter_loop_part0_scanning:
  "readAfter_loop_part0 f l rest False [] =
     (if read_fails f then Inl ErrReadingEntry
      else if l \<in> set rest then Inr (tl (dropWhile (\<lambda>u. u \<noteq> l) rest))
      else Inr (records f))"
  by (induction rest) (auto simp: readAfter_loop_part0_reached readAll_part0_eq)

lemma readAfter_part0_Some:
  "readAfter_part0 (Some f) (Some l) =
     (if read_fails f then Inl ErrReadingEntry
      else if l \<in> set (records f) then Inr (tl (dropWhile (\<lambda>u. u \<noteq> l) (records f)))
      else Inr (records f))"
  by (simp add: readAfter_part0_def readAfter_loop_part0_scanning)

text \<open>
  Claim C6 at a failing input. The file holds the login and the logout of alice, and
  the last known record is the login. The claim gives the logout alone, which is what
  \<^verbatim>\<open>part_000\<close> returns; \<^verbatim>\<open>readAfter\<close> of utmp.go returns both records.
\<close>

theorem readAfter_returns_last_known_record:
  "readAfter wtmp_file (Some alice_login) = Inr [alice_login, alice_logout]
   \<and> readAfter_part0 (Some wtmp_file) (Some alice_login) = Inr [alice_logout]"
  by (simp add: readAfter_Some readAfter_part0_Some wtmp_file_def alice_login_def
      alice_logout_def)

section \<open>The cursors after a poll\<close>

lemma in_set_tl: "x \<in> set (tl xs) \<Longrightarrow> x \<in> set xs"
  by (cases xs) auto

lemma processLoginRecord_fileRecords:
  "fileRecords (snd (processLoginRecord env r utmp)) = fileRecords r"
  by (simp add: processLoginRecord_def Let_def split: option.splits)

lemma processRecords_fileRecords:
  "fileRecords (fst (processRecords env path us r acc)) = fileRecords r"
proof (induction us arbitrary: r acc)
  case Nil
  show ?case by simp
next
  case (Cons u us)
  have "fileRecords (snd (processLoginRecord env r u)) = fileRecords r"
    by (rule processLoginRecord_fileRecords)
  then show ?case
    by (cases "processLoginRecord env r u") (auto simp: Cons split: option.splits)
qed

lemma updateFileRecord_same:
  "fileRecords (updateFileRecord inode n us r) inode =
     Some \<lparr>Inode = inode, Size = n,
           LastUtmp = (if us \<noteq> None \<and> the us \<noteq> [] then last (the us)
                       else carried r inode)\<rparr>"
  by (simp add: updateFileRecord_def carried_def Let_def split: option.splits)

lemma updateFileRecord_other:
  "i \<noteq> inode \<Longrightarrow> fileRecords (updateFileRecord inode n us r) i = fileRecords r i"
  by (simp add: updateFileRecord_def Let_def)

lemma updateFileRecord_None_carried:
  "carried (updateFileRecord inode n None r) i = carried r i"
  by (simp add: updateFileRecord_def carried_def Let_def split: option.splits)

lemma deleteOldRecords_fileRecords:
  "fileRecords (deleteOldRecords is r) i = (if i \<in> set is then fileRecords r i else None)"
  by (simp add: deleteOldRecords_def)

subsection \<open>One round of the loop\<close>

lemma readPath_inodes:
  "readPath env path st = (err, st') \<Longrightarrow> inodes st' = inodes st @ seen_inodes env [path]"
  by (auto simp: readPath_def seen_inodes_def Let_def
      split: stat_result.splits option.splits sum.splits if_splits prod.splits)

lemma readPath_inodes_mono:
  "readPath env path st = (err, st') \<Longrightarrow> set (inodes st) \<subseteq> set (inodes st')"
  by (drule readPath_inodes) auto

lemma readPath_carried:
  "readPath env path st = (err, st') \<Longrightarrow> carried (reader st') i = carried (reader st) i"
  using processRecords_fileRecords
  apply (auto simp: readPath_def Let_def updateFileRecord_None_carried
      split: stat_result.splits option.splits sum.splits if_splits prod.splits)
  by (metis carried_def fst_conv)+

lemma readPath_deferred:
  "readPath env path st = (err, st') \<Longrightarrow>
   deferred st' = deferred st
   \<or> (\<exists>inode newSize us. deferred st' = (inode, newSize, us) # deferred st
        \<and> inode \<in> set (inodes st') \<and> (err = None \<longrightarrow> us \<noteq> []))"
  by (auto simp: readPath_def Let_def
      split: stat_result.splits option.splits sum.splits if_splits prod.splits)

text \<open>
  When a round starts a read: the inode is new or has shrunk and the file is not empty,
  or the inode is known and its size has changed. The round then defers one call of
  \<^verbatim>\<open>updateFileRecord\<close>, whose records are those \<^verbatim>\<open>readAfter\<close> returned, and none when
  the file could not be opened or read.
\<close>

lemma readPath_starts_read:
  assumes "Stat env path = StatOk inode newSize"
    and "isKnownFile = (fileRecords (reader st) inode \<noteq> None
           \<and> \<not> newSize < Size (the (fileRecords (reader st) inode)))"
    and "if isKnownFile then newSize \<noteq> Size (the (fileRecords (reader st) inode))
         else newSize \<noteq> 0"
  shows "deferred (snd (readPath env path st)) =
           (inode, newSize,
            case Open env path of
              None \<Rightarrow> []
            | Some f \<Rightarrow>
                (case readAfter f (if isKnownFile
                        then Some (LastUtmp (the (fileRecords (reader st) inode)))
                        else None) of
                   Inl e \<Rightarrow> []
                 | Inr utmpRecords \<Rightarrow> utmpRecords)) # deferred st"
  using assms
  by (auto simp: readPath_def Let_def
      split: option.splits sum.splits if_splits prod.splits)

subsection \<open>The loop\<close>

lemma readPaths_inodes:
  "readPaths env paths st = (err, st') \<Longrightarrow>
   \<exists>k\<le>length paths. inodes st' = inodes st @ seen_inodes env (take k paths)"
proof (induction paths arbitrary: st)
  case Nil
  then show ?case by (simp add: seen_inodes_def)
next
  case (Cons p ps)
  obtain e1 st1 where step: "readPath env p st = (e1, st1)"
    by (cases "readPath env p st")
  have i1: "inodes st1 = inodes st @ seen_inodes env [p]"
    by (rule readPath_inodes [OF step])
  show ?case
  proof (cases e1)
    case (Some e)
    with Cons.prems step have "st' = st1" by simp
    with i1 have "inodes st' = inodes st @ seen_inodes env (take 1 (p # ps))" by simp
    then show ?thesis by (intro exI [of _ 1]) simp
  next
    case None
    with Cons.prems step have "readPaths env ps st1 = (err, st')" by simp
    from Cons.IH [OF this] obtain k where k: "k \<le> length ps"
      and "inodes st' = inodes st1 @ seen_inodes env (take k ps)" by blast
    with i1 have "inodes st' = inodes st @ seen_inodes env (take (Suc k) (p # ps))"
      by (simp add: seen_inodes_def)
    with k show ?thesis by (intro exI [of _ "Suc k"]) simp
  qed
qed

lemma readPaths_carried:
  "readPaths env paths st = (err, st') \<Longrightarrow> carried (reader st') i = carried (reader st) i"
proof (induction paths arbitrary: st)
  case Nil
  then show ?case by simp
next
  case (Cons p ps)
  obtain e1 st1 where step: "readPath env p st = (e1, st1)"
    by (cases "readPath env p st")
  have c1: "carried (reader st1) i = carried (reader st) i"
    by (rule readPath_carried [OF step])
  show ?case
  proof (cases e1)
    case (Some e)
    with Cons.prems step c1 show ?thesis by simp
  next
    case None
    with Cons.prems step have "readPaths env ps st1 = (err, st')" by simp
    from Cons.IH [OF this] c1 show ?thesis by simp
  qed
qed

text \<open>
  The deferred calls: each is for an inode seen in this poll, and each but the latest
  holds records, since a read that returns none makes \<^verbatim>\<open>ReadNew\<close> return.
\<close>

lemma readPaths_deferred:
  assumes "readPaths env paths st = (err, st')"
    and "\<forall>d \<in> set (deferred st). fst d \<in> set (inodes st)"
    and "\<forall>d \<in> set (deferred st). returned_records d \<noteq> []"
  shows "(\<forall>d \<in> set (deferred st'). fst d \<in> set (inodes st'))
       \<and> (\<forall>d \<in> set (tl (deferred st')). returned_records d \<noteq> [])
       \<and> (err = None \<longrightarrow> (\<forall>d \<in> set (deferred st'). returned_records d \<noteq> []))"
  using assms
proof (induction paths arbitrary: st)
  case Nil
  then show ?case by (auto dest: in_set_tl)
next
  case (Cons p ps)
  obtain e1 st1 where step: "readPath env p st = (e1, st1)"
    by (cases "readPath env p st")
  note d = readPath_deferred [OF step]
  note m = readPath_inodes_mono [OF step]
  have sub1: "\<forall>d \<in> set (deferred st1). fst d \<in> set (inodes st1)"
    using d m Cons.prems(2) by auto
  show ?case
  proof (cases e1)
    case (Some e)
    with Cons.prems(1) step have eq: "st' = st1" "err = Some e" by simp_all
    have "\<forall>d \<in> set (tl (deferred st1)). returned_records d \<noteq> []"
      using d Cons.prems(3) by (auto dest: in_set_tl)
    with sub1 eq show ?thesis by simp
  next
    case None
    with Cons.prems(1) step have rest: "readPaths env ps st1 = (err, st')" by simp
    have all1: "\<forall>d \<in> set (deferred st1). returned_records d \<noteq> []"
      using d None Cons.prems(3) by (auto simp: returned_records_def)
    from Cons.IH [OF rest sub1 all1] show ?thesis .
  qed
qed

subsection \<open>The deferred calls and the return\<close>

lemma runDeferred_append:
  "runDeferred (ds1 @ ds2) r = runDeferred ds2 (runDeferred ds1 r)"
  by (simp add: runDeferred_def)

lemma runDeferred_Cons:
  "runDeferred ((inode, n, us) # ds) r =
     runDeferred ds (updateFileRecord inode n (Some us) r)"
  by (simp add: runDeferred_def)

lemma runDeferred_Nil: "runDeferred [] r = r"
  by (simp add: runDeferred_def)

lemma runDeferred_other:
  "i \<notin> fst ` set ds \<Longrightarrow> fileRecords (runDeferred ds r) i = fileRecords r i"
proof (induction ds arbitrary: r)
  case Nil
  show ?case by (simp add: runDeferred_Nil)
next
  case (Cons d ds)
  obtain inode n us where d: "d = (inode, n, us)" by (cases d)
  with Cons.prems have ne: "i \<noteq> inode" and rest: "i \<notin> fst ` set ds" by auto
  show ?case
    by (simp add: d runDeferred_Cons Cons.IH [OF rest] updateFileRecord_other [OF ne])
qed

lemma start_poll_simps:
  "reader (start_poll r) = r" "inodes (start_poll r) = []" "deferred (start_poll r) = []"
  "loginRecords (start_poll r) = []"
  by (simp_all add: start_poll_def)

lemma ReadNew_reader:
  assumes "Glob env (filePattern r) = Some paths"
    and "readPaths env (rev (sort paths)) (start_poll r) = (err, st)"
  shows "snd (ReadNew env r) =
           deleteOldRecords (inodes st) (runDeferred (deferred st) (reader st))"
  using assms by (simp add: ReadNew_def Let_def split: option.splits)

subsection \<open>The scenarios, evaluated\<close>

lemmas hosts = wtmp_host_def wtmp_glob_def wtmp_stat_def wtmp_open_def broken_host_def
  broken_open_def empty_host_def empty_stat_def failing_host_def rotated_glob_def
  failing_stat_def bad_pattern_host_def bad_glob_def

lemma sorted_two:
  "rev (sort [''/var/log/wtmp'', ''/var/log/wtmp.1'']) =
     [''/var/log/wtmp.1'', ''/var/log/wtmp'']"
  by code_simp

lemma wtmp_poll:
  "readPaths wtmp_host [''/var/log/wtmp''] (start_poll fresh_reader) =
     (None,
      \<lparr>reader = fresh_reader
          \<lparr>loginSessions := [''pts/0'' \<mapsto> login_of wtmp_host alice_login]\<rparr>,
       inodes = [7], deferred = [(7, 768, [alice_login, alice_logout])],
       loginRecords = [(login_of wtmp_host alice_login)\<lparr>Origin := ''/var/log/wtmp''\<rparr>,
                       (logout_of alice_logout (login_of wtmp_host alice_login))
                          \<lparr>Origin := ''/var/log/wtmp''\<rparr>]\<rparr>)"
  by (simp add: readPath_def hosts start_poll_def fresh_reader_def readAfter_None
      wtmp_file_def Let_def processLoginRecord_def newLoginRecord_def login_of_def
      logout_of_def alice_login_def alice_logout_def utmp_types)

lemma broken_poll:
  "readPaths broken_host [''/var/log/wtmp''] (start_poll known_reader) =
     (Some (ErrReadingFile ''/var/log/wtmp'' ErrReadingEntry),
      \<lparr>reader = known_reader, inodes = [7], deferred = [(7, 768, [])],
       loginRecords = []\<rparr>)"
  by (simp add: readPath_def hosts start_poll_def known_reader_def readAfter_Some
      broken_wtmp_def Let_def)

lemma broken_fresh_poll:
  "readPaths broken_host [''/var/log/wtmp''] (start_poll fresh_reader) =
     (Some (ErrReadingFile ''/var/log/wtmp'' ErrReadingEntry),
      \<lparr>reader = fresh_reader, inodes = [7], deferred = [(7, 768, [])],
       loginRecords = []\<rparr>)"
  by (simp add: readPath_def hosts start_poll_def fresh_reader_def readAfter_None
      broken_wtmp_def Let_def)

lemma failing_poll:
  "readPaths failing_host [''/var/log/wtmp.1'', ''/var/log/wtmp'']
     (start_poll rotated_reader) =
     (Some (ErrLookingUpFile ''/var/log/wtmp''),
      \<lparr>reader = rotated_reader, inodes = [8], deferred = [], loginRecords = []\<rparr>)"
  by (simp add: readPath_def hosts start_poll_def rotated_reader_def Let_def)

lemma failing_ReadNew:
  "ReadNew failing_host rotated_reader =
     (Inl (ErrLookingUpFile ''/var/log/wtmp''),
      rotated_reader\<lparr>fileRecords :=
        [8 \<mapsto> \<lparr>Inode = 8, Size = 384, LastUtmp = alice_login\<rparr>]\<rparr>)"
  using failing_poll sorted_two
  by (simp add: ReadNew_def hosts deleteOldRecords_def runDeferred_def rotated_reader_def
      fun_eq_iff)

lemma bad_pattern_ReadNew:
  "ReadNew bad_pattern_host rotated_reader =
     (Inl ErrExpandPattern, rotated_reader\<lparr>fileRecords := Map.empty\<rparr>)"
  by (simp add: ReadNew_def hosts deleteOldRecords_def)

section \<open>Claims about the cursors\<close>

text \<open>
  Claim C7, as the code has it. Take any poll and any read it starts, that is any
  deferred call of \<^verbatim>\<open>updateFileRecord\<close> with its inode, new size and records, the
  first one for its inode in the poll (\<open>earlier\<close> holds none for it). Whether
  \<^verbatim>\<open>ReadNew\<close> then returns records or an error, the cursor of the inode after the poll
  has the new size; its last record is the last record the read returned when it
  returned any, and otherwise (the file could not be opened, the read failed, even
  after it had decoded records, or it returned nothing) the last record of the cursor
  the inode had before the poll, the zero record when it had none.
\<close>

theorem cursor_after_started_read:
  assumes "Glob env (filePattern r) = Some paths"
    and "readPaths env (rev (sort paths)) (start_poll r) = (err, st)"
    and "deferred st = later @ (inode, newSize, utmpRecords) # earlier"
    and "inode \<notin> fst ` set earlier"
  shows "fileRecords (snd (ReadNew env r)) inode =
           Some \<lparr>Inode = inode, Size = newSize,
                 LastUtmp = (if utmpRecords \<noteq> [] then last utmpRecords
                             else carried r inode)\<rparr>"
proof -
  have inv: "(\<forall>d \<in> set (deferred st). fst d \<in> set (inodes st))
       \<and> (\<forall>d \<in> set (tl (deferred st)). returned_records d \<noteq> [])
       \<and> (err = None \<longrightarrow> (\<forall>d \<in> set (deferred st). returned_records d \<noteq> []))"
    by (rule readPaths_deferred [OF assms(2)]) (simp_all add: start_poll_simps)
  have seen: "inode \<in> set (inodes st)"
    using inv assms(3) by auto
  let ?before = "runDeferred later (reader st)"
  have "fileRecords (runDeferred (deferred st) (reader st)) inode =
          fileRecords (updateFileRecord inode newSize (Some utmpRecords) ?before) inode"
    by (simp add: assms(3) runDeferred_append runDeferred_Cons
        runDeferred_other [OF assms(4)])
  also have "\<dots> = Some \<lparr>Inode = inode, Size = newSize,
                 LastUtmp = (if utmpRecords \<noteq> [] then last utmpRecords
                             else carried ?before inode)\<rparr>"
    by (simp add: updateFileRecord_same)
  finally have run: "fileRecords (runDeferred (deferred st) (reader st)) inode =
      Some \<lparr>Inode = inode, Size = newSize,
            LastUtmp = (if utmpRecords \<noteq> [] then last utmpRecords
                        else carried ?before inode)\<rparr>" .
  have carry: "carried ?before inode = carried r inode" if "utmpRecords = []"
  proof -
    have "later = []"
    proof (rule ccontr)
      assume "later \<noteq> []"
      then have "(inode, newSize, utmpRecords) \<in> set (tl (deferred st))"
        using assms(3) by (cases later) auto
      with inv have "returned_records (inode, newSize, utmpRecords) \<noteq> []" by blast
      with that show False by (simp add: returned_records_def)
    qed
    then have "carried ?before inode = carried (reader st) inode"
      by (simp add: runDeferred_Nil)
    also have "\<dots> = carried (reader (start_poll r)) inode"
      by (rule readPaths_carried [OF assms(2)])
    finally show ?thesis by (simp add: start_poll_simps)
  qed
  show ?thesis
    using run seen carry
    by (simp add: ReadNew_reader [OF assms(1,2)] deleteOldRecords_fileRecords)
qed

text \<open>
  The theorem at two polls of \<^verbatim>\<open>/var/log/wtmp\<close>, inode 7 with 768 bytes. A reader that
  has seen nothing reads both records: the cursor holds the logout. A reader that
  holds the login as last record meets a read error: \<^verbatim>\<open>ReadNew\<close> returns the error,
  and the cursor has the new size and still the login.
\<close>

theorem cursor_after_started_read_witness:
  "fileRecords (snd (ReadNew wtmp_host fresh_reader)) 7 =
     Some \<lparr>Inode = 7, Size = 768, LastUtmp = alice_logout\<rparr>
   \<and> fst (ReadNew broken_host known_reader) =
       Inl (ErrReadingFile ''/var/log/wtmp'' ErrReadingEntry)
   \<and> fileRecords (snd (ReadNew broken_host known_reader)) 7 =
       Some \<lparr>Inode = 7, Size = 768, LastUtmp = alice_login\<rparr>"
proof -
  have g1: "Glob wtmp_host (filePattern fresh_reader) = Some [''/var/log/wtmp'']"
    and g2: "Glob broken_host (filePattern known_reader) = Some [''/var/log/wtmp'']"
    by (simp_all add: hosts)
  have c: "carried known_reader 7 = alice_login"
    by (simp add: carried_def known_reader_def)
  have e: "fst (ReadNew broken_host known_reader) =
             Inl (ErrReadingFile ''/var/log/wtmp'' ErrReadingEntry)"
    using g2 broken_poll by (simp add: ReadNew_def)
  show ?thesis
    using cursor_after_started_read
        [OF g1, of None _ "[]" 7 768 "[alice_login, alice_logout]" "[]"]
      cursor_after_started_read
        [OF g2, of "Some (ErrReadingFile ''/var/log/wtmp'' ErrReadingEntry)"
           _ "[]" 7 768 "[]" "[]"]
      wtmp_poll broken_poll c e
    by simp
qed

text \<open>
  Claim C7 as stated fails when the read fails after it has decoded a record. On a
  reader that has seen nothing, \<^verbatim>\<open>ReadNextUtmp\<close> decodes the login of alice and then
  returns an error: one record was parsed in this read, yet the cursor stored for inode
  7 holds the zero record, not the login.
\<close>

theorem read_error_forgets_parsed_record:
  "Stat broken_host ''/var/log/wtmp'' = StatOk 7 768
   \<and> Open broken_host ''/var/log/wtmp'' = Some broken_wtmp
   \<and> records broken_wtmp = [alice_login] \<and> read_fails broken_wtmp
   \<and> fileRecords fresh_reader 7 = None
   \<and> fileRecords (snd (ReadNew broken_host fresh_reader)) 7 =
       Some \<lparr>Inode = 7, Size = 768, LastUtmp = zero_Utmp\<rparr>
   \<and> LastUtmp (the (fileRecords (snd (ReadNew broken_host fresh_reader)) 7))
       \<noteq> last (records broken_wtmp)"
proof -
  have g: "Glob broken_host (filePattern fresh_reader) = Some [''/var/log/wtmp'']"
    by (simp add: hosts)
  have "fileRecords (snd (ReadNew broken_host fresh_reader)) 7 =
       Some \<lparr>Inode = 7, Size = 768, LastUtmp = zero_Utmp\<rparr>"
    using g broken_fresh_poll
    by (simp add: ReadNew_def deleteOldRecords_def runDeferred_def updateFileRecord_def
        fresh_reader_def Let_def)
  then show ?thesis
    by (simp add: hosts broken_wtmp_def fresh_reader_def zero_Utmp_def alice_login_def)
qed

text \<open>
  Claim C8. When \<^verbatim>\<open>os.Stat\<close> finds a path with size 0 whose inode has no cursor, the
  round of the loop stores the cursor with size 0 and the zero record for the inode,
  notes the inode as seen, defers nothing and collects nothing (the file is not opened
  or read, and no login record comes from it), returns no error, and the loop goes on
  with the paths that are left.
\<close>

theorem new_empty_file:
  assumes "Stat env path = StatOk inode 0"
    and "fileRecords (reader st) inode = None"
  shows "readPath env path st =
           (None, st\<lparr>inodes := inodes st @ [inode],
                     reader := (reader st)\<lparr>fileRecords := (fileRecords (reader st))
                        (inode \<mapsto> \<lparr>Inode = inode, Size = 0, LastUtmp = zero_Utmp\<rparr>)\<rparr>\<rparr>)
       \<and> readPaths env (path # paths) st =
           readPaths env paths
             (st\<lparr>inodes := inodes st @ [inode],
                 reader := (reader st)\<lparr>fileRecords := (fileRecords (reader st))
                    (inode \<mapsto> \<lparr>Inode = inode, Size = 0, LastUtmp = zero_Utmp\<rparr>)\<rparr>\<rparr>)"
  using assms by (simp add: readPath_def Let_def updateFileRecord_def)

text \<open>
  The theorem at an empty \<^verbatim>\<open>/var/log/wtmp\<close> seen for the first time: the poll returns
  no records and no error, and the reader holds the cursor of inode 7 with size 0.
\<close>

theorem new_empty_file_witness:
  "Stat empty_host ''/var/log/wtmp'' = StatOk 7 0
   \<and> fileRecords (reader (start_poll fresh_reader)) 7 = None
   \<and> readPaths empty_host [''/var/log/wtmp''] (start_poll fresh_reader) =
       (None, \<lparr>reader = fresh_reader\<lparr>fileRecords :=
                  [7 \<mapsto> \<lparr>Inode = 7, Size = 0, LastUtmp = zero_Utmp\<rparr>]\<rparr>,
               inodes = [7], deferred = [], loginRecords = []\<rparr>)
   \<and> ReadNew empty_host fresh_reader =
       (Inr [], fresh_reader\<lparr>fileRecords :=
                  [7 \<mapsto> \<lparr>Inode = 7, Size = 0, LastUtmp = zero_Utmp\<rparr>]\<rparr>)"
proof -
  have s: "Stat empty_host ''/var/log/wtmp'' = StatOk 7 0"
    by (simp add: hosts)
  have f: "fileRecords (reader (start_poll fresh_reader)) 7 = None"
    by (simp add: start_poll_def fresh_reader_def)
  have g: "Glob empty_host (filePattern fresh_reader) = Some [''/var/log/wtmp'']"
    by (simp add: hosts)
  have p: "readPaths empty_host [''/var/log/wtmp''] (start_poll fresh_reader) =
       (None, \<lparr>reader = fresh_reader\<lparr>fileRecords :=
                  [7 \<mapsto> \<lparr>Inode = 7, Size = 0, LastUtmp = zero_Utmp\<rparr>]\<rparr>,
               inodes = [7], deferred = [], loginRecords = []\<rparr>)"
    using new_empty_file [OF s f, of "[]"]
    by (simp add: start_poll_def fresh_reader_def)
  have "ReadNew empty_host fresh_reader =
       (Inr [], fresh_reader\<lparr>fileRecords :=
                  [7 \<mapsto> \<lparr>Inode = 7, Size = 0, LastUtmp = zero_Utmp\<rparr>]\<rparr>)"
    using g p
    by (simp add: ReadNew_def deleteOldRecords_def runDeferred_def fresh_reader_def
        fun_eq_iff)
  with s f p show ?thesis by simp
qed

text \<open>
  Claim C10. When \<^verbatim>\<open>ReadNew\<close> returns an error, the deferred \<^verbatim>\<open>deleteOldRecords\<close> has
  run with the inodes seen before the return, which are the inodes \<^verbatim>\<open>os.Stat\<close> found
  for some first paths of the sorted list: the reader returned holds no cursor for
  any other inode. When the pattern cannot be expanded no inode is seen, and the
  reader returned holds no cursor at all.
\<close>

theorem early_return_drops_unseen_cursors:
  assumes "ReadNew env r = (Inl e, r')"
  shows "(Glob env (filePattern r) = None \<longrightarrow> fileRecords r' = Map.empty)
       \<and> (\<forall>paths err st.
            Glob env (filePattern r) = Some paths
            \<and> readPaths env (rev (sort paths)) (start_poll r) = (err, st) \<longrightarrow>
            err = Some e
            \<and> (\<exists>k\<le>length paths. inodes st = seen_inodes env (take k (rev (sort paths))))
            \<and> (\<forall>i. i \<notin> set (inodes st) \<longrightarrow> fileRecords r' i = None))"
proof (intro conjI allI impI)
  assume "Glob env (filePattern r) = None"
  with assms show "fileRecords r' = Map.empty"
    by (auto simp: ReadNew_def deleteOldRecords_def)
next
  fix paths err st
  assume a: "Glob env (filePattern r) = Some paths
            \<and> readPaths env (rev (sort paths)) (start_poll r) = (err, st)"
  with assms show "err = Some e"
    by (auto simp: ReadNew_def Let_def split: option.splits)
  from a readPaths_inodes [of env "rev (sort paths)" "start_poll r" err st]
  show "\<exists>k\<le>length paths. inodes st = seen_inodes env (take k (rev (sort paths)))"
    by (simp add: start_poll_simps)
  fix i
  assume "i \<notin> set (inodes st)"
  moreover have "r' = snd (ReadNew env r)" using assms by simp
  ultimately show "fileRecords r' i = None"
    using a by (simp add: ReadNew_reader deleteOldRecords_fileRecords)
qed

text \<open>
  The theorem after a rotation, with cursors for inodes 7 and 8: \<^verbatim>\<open>os.Stat\<close> finds the
  rotated file, inode 8, and fails on the live file. \<^verbatim>\<open>ReadNew\<close> returns the error and
  the cursor of inode 7 is gone. And when the pattern is rejected, both cursors are
  gone.
\<close>

theorem early_return_drops_unseen_cursors_witness:
  "ReadNew failing_host rotated_reader =
     (Inl (ErrLookingUpFile ''/var/log/wtmp''),
      rotated_reader\<lparr>fileRecords :=
        [8 \<mapsto> \<lparr>Inode = 8, Size = 384, LastUtmp = alice_login\<rparr>]\<rparr>)
   \<and> fileRecords rotated_reader 7 =
       Some \<lparr>Inode = 7, Size = 768, LastUtmp = alice_logout\<rparr>
   \<and> inodes (snd (readPaths failing_host [''/var/log/wtmp.1'', ''/var/log/wtmp'']
                 (start_poll rotated_reader))) = [8]
   \<and> fileRecords (snd (ReadNew failing_host rotated_reader)) 7 = None
   \<and> ReadNew bad_pattern_host rotated_reader =
       (Inl ErrExpandPattern, rotated_reader\<lparr>fileRecords := Map.empty\<rparr>)
   \<and> fileRecords (snd (ReadNew bad_pattern_host rotated_reader)) = Map.empty"
proof -
  have g: "Glob failing_host (filePattern rotated_reader) =
             Some [''/var/log/wtmp'', ''/var/log/wtmp.1'']"
    and b: "Glob bad_pattern_host (filePattern rotated_reader) = None"
    by (simp_all add: hosts)
  have c: "fileRecords rotated_reader 7 =
             Some \<lparr>Inode = 7, Size = 768, LastUtmp = alice_logout\<rparr>"
    by (simp add: rotated_reader_def)
  show ?thesis
    using early_return_drops_unseen_cursors [OF failing_ReadNew]
      early_return_drops_unseen_cursors [OF bad_pattern_ReadNew]
      g b c failing_poll sorted_two failing_ReadNew bad_pattern_ReadNew
    by simp
qed

section \<open>The uid map of \<^verbatim>\<open>compareUsers\<close>\<close>

lemma update_fresh: "k \<notin> fst ` set al \<Longrightarrow> AList.update k v al = al @ [(k, v)]"
  by (induction al) auto

lemma set_update_subset: "set (AList.update k v al) \<subseteq> insert (k, v) (set al)"
  by (induction al) auto

lemma fold_update_distinct:
  "distinct (map key xs) \<Longrightarrow> key ` set xs \<inter> fst ` set acc = {} \<Longrightarrow>
   fold (\<lambda>x. AList.update (key x) x) xs acc = acc @ map (\<lambda>x. (key x, x)) xs"
proof (induction xs arbitrary: acc)
  case Nil
  show ?case by simp
next
  case (Cons x xs)
  from Cons.prems have fresh: "key x \<notin> fst ` set acc" by auto
  have "key ` set xs \<inter> fst ` set (acc @ [(key x, x)]) = {}"
    using Cons.prems by auto
  with Cons.IH [of "acc @ [(key x, x)]"] Cons.prems(1) show ?case
    by (simp add: update_fresh [OF fresh])
qed

lemma missingUserMap_distinct:
  "distinct (map User.UID ms) \<Longrightarrow> missingUserMap ms = map (\<lambda>u. (User.UID u, u)) ms"
  by (simp add: missingUserMap_def fold_update_distinct)

lemma index_items_distinct:
  "distinct (map fp xs) \<Longrightarrow> index_items fp xs = map (\<lambda>u. (fp u, u)) xs"
  by (simp add: index_items_def fold_update_distinct)

lemma keys_fold_update:
  "fst ` set (fold (\<lambda>x. AList.update (key x) x) xs acc) = fst ` set acc \<union> key ` set xs"
  by (induction xs arbitrary: acc) (auto simp: dom_update)

lemma keyed_fold_update:
  "keyed_by_uid acc \<Longrightarrow> keyed_by_uid (fold (\<lambda>u. AList.update (User.UID u) u) ms acc)"
proof (induction ms arbitrary: acc)
  case Nil
  then show ?case by simp
next
  case (Cons u ms)
  have "set (AList.update (User.UID u) u acc) \<subseteq> insert (User.UID u, u) (set acc)"
    by (rule set_update_subset)
  then have "keyed_by_uid (AList.update (User.UID u) u acc)"
    using Cons.prems unfolding keyed_by_uid_def by blast
  with Cons.IH show ?case by simp
qed

lemma keyed_missingUserMap: "keyed_by_uid (missingUserMap ms)"
  unfolding missingUserMap_def by (rule keyed_fold_update) (simp add: keyed_by_uid_def)

lemma keys_missingUserMap: "fst ` set (missingUserMap ms) = User.UID ` set ms"
  by (simp add: missingUserMap_def keys_fold_update)

lemma keyed_lookup:
  "keyed_by_uid m \<Longrightarrow> map_of m k = Some u \<Longrightarrow> User.UID u = k"
  by (auto simp: keyed_by_uid_def dest: map_of_SomeD)

lemma keyed_filter: "keyed_by_uid m \<Longrightarrow> keyed_by_uid (filter P m)"
  by (auto simp: keyed_by_uid_def)

lemma keyed_uids: "keyed_by_uid m \<Longrightarrow> User.UID ` set (map snd m) = fst ` set m"
  by (force simp: keyed_by_uid_def)

lemma lookup_None_iff: "map_of m k = None \<longleftrightarrow> k \<notin> fst ` set m"
  by (simp add: map_of_eq_None_iff)

text \<open>What the loop leaves of the map: the entries whose uid no new user has.\<close>

lemma matchUsers_left:
  "keyed_by_uid m \<Longrightarrow> matchUsers new m a c = (a', c', left) \<Longrightarrow>
   left = filter (\<lambda>(k, u). k \<notin> User.UID ` set new) m"
proof (induction new arbitrary: m a c)
  case Nil
  then show ?case by simp
next
  case (Cons n new)
  show ?case
  proof (cases "map_of m (User.UID n)")
    case None
    then have "User.UID n \<notin> fst ` set m" by (simp add: lookup_None_iff)
    then have same: "filter (\<lambda>(k, u). k \<notin> User.UID ` set (n # new)) m =
        filter (\<lambda>(k, u). k \<notin> User.UID ` set new) m"
      by (intro filter_cong) force+
    from Cons.prems(2) None have "matchUsers new m (a @ [n]) c = (a', c', left)" by simp
    from Cons.IH [OF Cons.prems(1) this] same show ?thesis by simp
  next
    case (Some u)
    with Cons.prems(1) have uid: "User.UID u = User.UID n" by (rule keyed_lookup)
    let ?m = "AList.delete (User.UID n) m"
    have k: "keyed_by_uid ?m"
      using Cons.prems(1) by (simp add: AList.delete_eq keyed_filter)
    from Cons.prems(2) Some uid have "matchUsers new ?m a (c @ [n]) = (a', c', left)"
      by simp
    from Cons.IH [OF k this] show ?thesis
      by (auto simp: AList.delete_eq intro: filter_cong)
  qed
qed

lemma matchUsers_lists:
  "matchUsers new m a c = (a', c', left) \<Longrightarrow>
   \<exists>A C. a' = a @ A \<and> c' = c @ C \<and> mset A + mset C = mset new"
proof (induction new arbitrary: m a c)
  case Nil
  then show ?case by simp
next
  case (Cons n new)
  show ?case
  proof (cases "map_of m (User.UID n)")
    case None
    with Cons.prems have "matchUsers new m (a @ [n]) c = (a', c', left)" by simp
    from Cons.IH [OF this] obtain A C where
      "a' = (a @ [n]) @ A" "c' = c @ C" "mset A + mset C = mset new" by blast
    then have "a' = a @ (n # A) \<and> c' = c @ C \<and> mset (n # A) + mset C = mset (n # new)"
      by simp
    then show ?thesis by blast
  next
    case (Some u)
    with Cons.prems have
      "matchUsers new (AList.delete (User.UID u) m) a (c @ [n]) = (a', c', left)" by simp
    from Cons.IH [OF this] obtain A C where
      "a' = a @ A" "c' = (c @ [n]) @ C" "mset A + mset C = mset new" by blast
    then have "a' = a @ A \<and> c' = c @ (n # C) \<and> mset A + mset (n # C) = mset (n # new)"
      by simp
    then show ?thesis by blast
  qed
qed

text \<open>
  With distinct uids among the new users, the map as it is before the loop decides
  each of them.
\<close>

lemma matchUsers_distinct:
  "keyed_by_uid m \<Longrightarrow> distinct (map User.UID new) \<Longrightarrow>
   matchUsers new m a c = (a', c', left) \<Longrightarrow>
   a' = a @ filter (\<lambda>n. User.UID n \<notin> fst ` set m) new
   \<and> c' = c @ filter (\<lambda>n. User.UID n \<in> fst ` set m) new"
proof (induction new arbitrary: m a c)
  case Nil
  then show ?case by simp
next
  case (Cons n new)
  from Cons.prems(2) have d: "distinct (map User.UID new)"
    and fresh: "User.UID n \<notin> User.UID ` set new" by auto
  show ?case
  proof (cases "map_of m (User.UID n)")
    case None
    then have out: "User.UID n \<notin> fst ` set m" by (simp add: lookup_None_iff)
    from Cons.prems(3) None have "matchUsers new m (a @ [n]) c = (a', c', left)" by simp
    from Cons.IH [OF Cons.prems(1) d this] out show ?thesis by simp
  next
    case (Some u)
    then have inn: "User.UID n \<in> fst ` set m"
      by (metis lookup_None_iff option.distinct(1))
    have uid: "User.UID u = User.UID n" by (rule keyed_lookup [OF Cons.prems(1) Some])
    let ?m = "AList.delete (User.UID n) m"
    have k: "keyed_by_uid ?m"
      using Cons.prems(1) by (simp add: AList.delete_eq keyed_filter)
    have keys: "fst ` set ?m = fst ` set m - {User.UID n}"
      by (auto simp: AList.delete_eq)
    from Cons.prems(3) Some uid have "matchUsers new ?m a (c @ [n]) = (a', c', left)"
      by simp
    from Cons.IH [OF k d this]
    have "a' = a @ filter (\<lambda>x. User.UID x \<notin> fst ` set ?m) new"
      and "c' = (c @ [n]) @ filter (\<lambda>x. User.UID x \<in> fst ` set ?m) new" by simp_all
    moreover have ne: "User.UID x \<noteq> User.UID n" if "x \<in> set new" for x
      using fresh that by (metis imageI)
    moreover have "filter (\<lambda>x. User.UID x \<notin> fst ` set ?m) new =
        filter (\<lambda>x. User.UID x \<notin> fst ` set m) new"
      by (intro filter_cong refl) (simp add: keys ne)
    moreover have "filter (\<lambda>x. User.UID x \<in> fst ` set ?m) new =
        filter (\<lambda>x. User.UID x \<in> fst ` set m) new"
      by (intro filter_cong refl) (simp add: keys ne)
    ultimately show ?thesis using inn by simp
  qed
qed

text \<open>
  The loop pairs the users as \<open>pairUsers\<close> does with the users the map holds.
\<close>

lemma matchUsers_pairUsers:
  "keyed_by_uid m \<Longrightarrow> pairUsers new (map snd m) = (A, R, C) \<Longrightarrow>
   \<exists>left. matchUsers new m a c = (a @ A, c @ C, left) \<and> map snd left = R"
proof (induction new arbitrary: m a c A R C)
  case Nil
  then show ?case by simp
next
  case (Cons n new)
  have uids: "User.UID ` set (map snd m) = fst ` set m"
    by (rule keyed_uids [OF Cons.prems(1)])
  show ?case
  proof (cases "map_of m (User.UID n)")
    case None
    then have out: "User.UID n \<notin> User.UID ` set (map snd m)"
      unfolding uids by (simp add: lookup_None_iff)
    obtain A' R' C' where p: "pairUsers new (map snd m) = (A', R', C')"
      by (cases "pairUsers new (map snd m)")
    with Cons.prems(2) out have eq: "A = n # A'" "R = R'" "C = C'" by simp_all
    from Cons.IH [OF Cons.prems(1) p, of "a @ [n]" c] obtain left where
      "matchUsers new m (a @ [n]) c = ((a @ [n]) @ A', c @ C', left)" "map snd left = R'"
      by blast
    with None eq show ?thesis by simp
  next
    case (Some u)
    then have inn: "User.UID n \<in> User.UID ` set (map snd m)"
      unfolding uids by (metis lookup_None_iff option.distinct(1))
    have uid: "User.UID u = User.UID n" by (rule keyed_lookup [OF Cons.prems(1) Some])
    let ?m = "AList.delete (User.UID n) m"
    have k: "keyed_by_uid ?m"
      using Cons.prems(1) by (simp add: AList.delete_eq keyed_filter)
    have vals: "map snd ?m = filter (\<lambda>x. User.UID x \<noteq> User.UID n) (map snd m)"
      using Cons.prems(1)
      by (induction m) (auto simp: AList.delete_eq keyed_by_uid_def)
    obtain A' R' C' where p: "pairUsers new (map snd ?m) = (A', R', C')"
      by (cases "pairUsers new (map snd ?m)")
    with Cons.prems(2) inn vals have eq: "A = A'" "R = R'" "C = n # C'" by simp_all
    from Cons.IH [OF k p, of a "c @ [n]"] obtain left where
      "matchUsers new ?m a (c @ [n]) = (a @ A', (c @ [n]) @ C', left)" "map snd left = R'"
      by blast
    with Some uid eq show ?thesis by simp
  qed
qed

lemma pairUsers_Nil2: "pairUsers new [] = (new, [], [])"
  by (induction new) auto

lemma pairUsers_distinct:
  "distinct (map User.UID new) \<Longrightarrow>
   pairUsers new absent =
     (filter (\<lambda>n. User.UID n \<notin> User.UID ` set absent) new,
      filter (\<lambda>m. User.UID m \<notin> User.UID ` set new) absent,
      filter (\<lambda>n. User.UID n \<in> User.UID ` set absent) new)"
proof (induction new arbitrary: absent)
  case Nil
  show ?case by simp
next
  case (Cons n new)
  from Cons.prems have d: "distinct (map User.UID new)"
    and fresh: "User.UID n \<notin> User.UID ` set new" by auto
  show ?case
  proof (cases "User.UID n \<in> User.UID ` set absent")
    case False
    have ne: "User.UID m \<noteq> User.UID n" if "m \<in> set absent" for m
      using False that by (metis imageI)
    have "filter (\<lambda>m. User.UID m \<notin> User.UID ` set (n # new)) absent =
        filter (\<lambda>m. User.UID m \<notin> User.UID ` set new) absent"
      by (intro filter_cong refl) (simp add: ne)
    with False Cons.IH [OF d, of absent] show ?thesis by simp
  next
    case True
    let ?absent = "filter (\<lambda>m. User.UID m \<noteq> User.UID n) absent"
    have u: "User.UID ` {x \<in> set absent. User.UID x \<noteq> User.UID n} =
        User.UID ` set absent - {User.UID n}" by auto
    have ne: "User.UID x \<noteq> User.UID n" if "x \<in> set new" for x
      using fresh that by (metis imageI)
    have 1: "filter (\<lambda>x. User.UID x \<notin> User.UID ` set ?absent) new =
        filter (\<lambda>x. User.UID x \<notin> User.UID ` set absent) new"
      by (intro filter_cong refl) (simp add: u ne)
    have 2: "filter (\<lambda>x. User.UID x \<in> User.UID ` set ?absent) new =
        filter (\<lambda>x. User.UID x \<in> User.UID ` set absent) new"
      by (intro filter_cong refl) (simp add: u ne)
    have 3: "filter (\<lambda>m. User.UID m \<notin> User.UID ` set new) ?absent =
        filter (\<lambda>m. User.UID m \<notin> User.UID ` set (n # new)) absent"
      by (induction absent) auto
    from True Cons.IH [OF d, of ?absent] 1 2 3 show ?thesis by simp
  qed
qed

section \<open>The diff cache\<close>

lemma index_keys: "fst ` set (index_items fp xs) = fp ` set xs"
  by (simp add: index_items_def keys_fold_update)

lemma Diff_new: "fst (fst (DiffAndUpdateCache fp c items)) =
    map snd (filter (\<lambda>(k, u). k \<notin> fst ` set c) (index_items fp items))"
  by (simp add: DiffAndUpdateCache_def Let_def lookup_None_iff)

lemma Diff_missing: "snd (fst (DiffAndUpdateCache fp c items)) =
    map snd (filter (\<lambda>(k, u). k \<notin> fp ` set items) c)"
  by (simp add: DiffAndUpdateCache_def Let_def lookup_None_iff index_keys)

lemma Diff_cache: "snd (DiffAndUpdateCache fp c items) = index_items fp items"
  by (simp add: DiffAndUpdateCache_def Let_def)

lemma filter_none: "(\<And>x. x \<in> set xs \<Longrightarrow> \<not> P x) \<Longrightarrow> filter P xs = []"
  by (induction xs) auto

text \<open>
  When the items have the fingerprints the cache holds, nothing is new and nothing is
  missing.
\<close>

lemma Diff_same_fingerprints:
  assumes "fp ` set items = fst ` set c"
  shows "fst (DiffAndUpdateCache fp c items) = ([], [])"
proof -
  have "filter (\<lambda>(k, u). k \<notin> fst ` set c) (index_items fp items) = []"
  proof (rule filter_none)
    fix x assume "x \<in> set (index_items fp items)"
    then have "fst x \<in> fp ` set items" using index_keys [of fp items] by force
    with assms show "\<not> (case x of (k, u) \<Rightarrow> k \<notin> fst ` set c)" by (cases x) simp
  qed
  moreover have "filter (\<lambda>(k, u). k \<notin> fp ` set items) c = []"
  proof (rule filter_none)
    fix x assume "x \<in> set c"
    then have "fst x \<in> fst ` set c" by simp
    with assms show "\<not> (case x of (k, u) \<Rightarrow> k \<notin> fp ` set items)" by (cases x) simp
  qed
  ultimately show ?thesis
    by (simp add: prod_eq_iff Diff_new Diff_missing)
qed

lemma Diff_distinct:
  assumes "distinct (map fp olds)" and "distinct (map fp news)"
  shows "DiffAndUpdateCache fp (index_items fp olds) news =
           ((filter (\<lambda>u. fp u \<notin> fp ` set olds) news,
             filter (\<lambda>u. fp u \<notin> fp ` set news) olds), index_items fp news)"
proof -
  have 1: "map snd (filter (\<lambda>(k, u). k \<notin> fp ` set olds) (map (\<lambda>u. (fp u, u)) news)) =
      filter (\<lambda>u. fp u \<notin> fp ` set olds) news"
    by (induction news) auto
  have 2: "map snd (filter (\<lambda>(k, u). k \<notin> fp ` set news) (map (\<lambda>u. (fp u, u)) olds)) =
      filter (\<lambda>u. fp u \<notin> fp ` set news) olds"
    by (induction olds) auto
  show ?thesis
    using 1 2 index_keys [of fp olds]
    by (simp add: prod_eq_iff Diff_new Diff_missing Diff_cache index_items_distinct [OF assms(1)]
        index_items_distinct [OF assms(2)])
qed

lemma one_changed_diff:
  assumes "distinct (map fp (pre @ old # post))" and "distinct (map fp (pre @ new # post))"
    and "fp new \<noteq> fp old"
  shows "filter (\<lambda>u. fp u \<notin> fp ` set (pre @ old # post)) (pre @ new # post) = [new]"
    and "filter (\<lambda>u. fp u \<notin> fp ` set (pre @ new # post)) (pre @ old # post) = [old]"
proof -
  have a: "filter (\<lambda>u. fp u \<notin> fp ` set (pre @ x # post)) pre = []" for x
    by (rule filter_none) auto
  have b: "filter (\<lambda>u. fp u \<notin> fp ` set (pre @ x # post)) post = []" for x
    by (rule filter_none) auto
  have n: "fp new \<notin> fp ` set (pre @ old # post)"
    using assms(2,3) by auto
  have o: "fp old \<notin> fp ` set (pre @ new # post)"
    using assms(1,3) by auto
  show "filter (\<lambda>u. fp u \<notin> fp ` set (pre @ old # post)) (pre @ new # post) = [new]"
    using a [of old] b [of old] n by simp
  show "filter (\<lambda>u. fp u \<notin> fp ` set (pre @ new # post)) (pre @ old # post) = [old]"
    using a [of new] b [of new] o by simp
qed

lemma classifyUsers_replaced:
  "User.UID new = User.UID old \<Longrightarrow> classifyUsers [new] [old] = ([], [], [new])"
  by (simp add: classifyUsers_def missingUserMap_def)

lemma Hash_ignores_UserInfo: "Hash Sum64 (u\<lparr>UserInfo := info\<rparr>) = Hash Sum64 u"
  by (simp add: Hash_def)

section \<open>What \<^verbatim>\<open>Fetch\<close> reports\<close>

lemma compareUsers_eq:
  "compareUsers Sum64 c users =
     (classifyUsers (fst (fst (DiffAndUpdateCache (Hash Sum64) c users)))
                    (snd (fst (DiffAndUpdateCache (Hash Sum64) c users))),
      snd (DiffAndUpdateCache (Hash Sum64) c users))"
  by (simp add: compareUsers_def split: prod.splits)

lemma reportChanges_events:
  "compareUsers (xxhash env) (cache ms) users = ((added, removed, changed), c') \<Longrightarrow>
   fst (reportChanges env ms users) =
     map (\<lambda>user. ReportEvent (userEvent user eventTypeEvent eventActionUserAdded)) added
     @ map (\<lambda>user. ReportEvent (userEvent user eventTypeEvent eventActionUserRemoved)) removed
     @ map (\<lambda>user. ReportEvent (userEvent user eventTypeEvent eventActionUserChanged)) changed"
  by (simp add: reportChanges_def Let_def split: prod.splits)

lemma reportChanges_nothing:
  "compareUsers (xxhash env) (cache ms) users = (([], [], []), c') \<Longrightarrow>
   reportChanges env ms users = ([], None, ms\<lparr>cache := c'\<rparr>)"
  by (simp add: reportChanges_def Let_def)

lemma reportChanges_lastState:
  "lastState (snd (snd (reportChanges env ms users))) = lastState ms"
  by (simp add: reportChanges_def Let_def split: prod.splits)

lemma reportState_events:
  "fst (reportState env inp ms users) =
     map (\<lambda>user. ReportEvent (existing_user (stateID inp) user)) users"
  by (simp add: reportState_def existing_user_def Let_def split: option.splits prod.splits)

lemma reportState_lastState:
  "lastState (snd (snd (reportState env inp ms users))) = now_reportState inp"
  by (simp add: reportState_def Let_def split: option.splits prod.splits)

lemma reportState_cache:
  "cache (snd (snd (reportState env inp ms users))) = index_items (Hash (xxhash env)) users"
  by (simp add: reportState_def Let_def Diff_cache split: option.splits prod.splits)

lemma state_events_append: "state_events (xs @ ys) = state_events xs @ state_events ys"
  by (simp add: state_events_def)

lemma change_events_append: "change_events (xs @ ys) = change_events xs @ change_events ys"
  by (simp add: change_events_def)

lemma state_events_error: "state_events (report_error err) = []"
  by (cases err) (simp_all add: state_events_def report_error_def)

lemma change_events_error: "change_events (report_error err) = []"
  by (cases err) (simp_all add: change_events_def report_error_def)

lemma state_events_existing:
  "state_events (map (\<lambda>user. ReportEvent (existing_user sid user)) users) =
     map (existing_user sid) users"
  by (induction users) (simp_all add: state_events_def existing_user_def userEvent_def)

lemma change_events_existing:
  "change_events (map (\<lambda>user. ReportEvent (existing_user sid user)) users) = []"
  by (induction users)
    (simp_all add: change_events_def existing_user_def userEvent_def eventTypeState_def
      eventTypeEvent_def)

lemma state_events_change:
  "state_events (map (\<lambda>user. ReportEvent (userEvent user eventTypeEvent action)) users) = []"
  by (induction users)
    (simp_all add: state_events_def userEvent_def eventTypeState_def eventTypeEvent_def)

lemma state_events_reportChanges: "state_events (fst (reportChanges env ms users)) = []"
proof -
  obtain added removed changed c' where
    "compareUsers (xxhash env) (cache ms) users = ((added, removed, changed), c')"
    by (metis prod.exhaust)
  from reportChanges_events [OF this] show ?thesis
    by (simp add: state_events_append state_events_change)
qed

text \<open>\<^verbatim>\<open>Fetch\<close> once the users are there: with a resync, and without.\<close>

lemma Fetch_eq:
  assumes "GetUsers inp = Some users"
  shows "Fetch env inp ms =
     (if Since (now_Since inp) (lastState ms) > effectiveStatePeriod ms \<or> IsEmpty (cache ms)
      then
        (fst (reportState env inp ms users)
           @ report_error (fst (snd (reportState env inp ms users)))
           @ fst (reportChanges env (snd (snd (reportState env inp ms users))) users)
           @ report_error
               (fst (snd (reportChanges env (snd (snd (reportState env inp ms users))) users))),
         snd (snd (reportChanges env (snd (snd (reportState env inp ms users))) users)))
      else
        (fst (reportChanges env ms users)
           @ report_error (fst (snd (reportChanges env ms users))),
         snd (snd (reportChanges env ms users))))"
  using assms by (simp add: Fetch_def Let_def split: prod.splits)

lemma Fetch_resync:
  assumes "GetUsers inp = Some users"
  shows "state_events (fst (Fetch env inp ms)) =
           (if IsEmpty (cache ms)
               \<or> effectiveStatePeriod ms < Since (now_Since inp) (lastState ms)
            then map (existing_user (stateID inp)) users else [])"
    and "lastState (snd (Fetch env inp ms)) =
           (if IsEmpty (cache ms)
               \<or> effectiveStatePeriod ms < Since (now_Since inp) (lastState ms)
            then now_reportState inp else lastState ms)"
  by (auto simp: Fetch_eq [OF assms] state_events_append state_events_error
      state_events_reportChanges reportState_events state_events_existing
      reportChanges_lastState reportState_lastState)

section \<open>Claims about the classification\<close>

lemma classifyUsers_both:
  "new \<noteq> [] \<Longrightarrow> missing \<noteq> [] \<Longrightarrow>
   classifyUsers new missing =
     (fst (matchUsers new (missingUserMap missing) [] []),
      map snd (snd (snd (matchUsers new (missingUserMap missing) [] []))),
      fst (snd (matchUsers new (missingUserMap missing) [] [])))"
  by (simp add: classifyUsers_def split: prod.splits)

lemma classifyUsers_one:
  "new = [] \<or> missing = [] \<Longrightarrow> classifyUsers new missing = (new, missing, [])"
  by (auto simp: classifyUsers_def)

lemma image_disjointI: "(\<And>x y. x \<in> A \<Longrightarrow> y \<in> B \<Longrightarrow> f x \<noteq> f y) \<Longrightarrow> f ` A \<inter> f ` B = {}"
  by blast

lemma image_disjoint_subset: "f ` A \<inter> f ` B = {} \<Longrightarrow> C \<subseteq> B \<Longrightarrow> f ` A \<inter> f ` C = {}"
  by blast

lemma mset_sum_subsets: "mset a + mset c = mset n \<Longrightarrow> set a \<subseteq> set n \<and> set c \<subseteq> set n"
  by (metis set_mset_mset set_mset_union Un_upper1 Un_upper2)

lemma filtered_keys_disjoint:
  "fst ` set (filter (\<lambda>(k, u). k \<notin> K) m) \<inter> K = {}"
  by auto

lemma classes_disjoint:
  assumes "classifyUsers newInCache missingFromCache = (added, removed, changed)"
  shows "User.UID ` set removed \<inter> User.UID ` set added = {}
      \<and> User.UID ` set removed \<inter> User.UID ` set changed = {}
      \<and> (distinct (map User.UID newInCache) \<longrightarrow>
           User.UID ` set added \<inter> User.UID ` set changed = {})"
proof (cases "newInCache = [] \<or> missingFromCache = []")
  case True
  from classifyUsers_one [OF True] assms
  have eq: "added = newInCache" "removed = missingFromCache" "changed = []" by simp_all
  from True show ?thesis unfolding eq by (elim disjE) simp_all
next
  case False
  let ?m = "missingUserMap missingFromCache"
  obtain a c left where m: "matchUsers newInCache ?m [] [] = (a, c, left)"
    by (cases "matchUsers newInCache ?m [] []") auto
  from False have "newInCache \<noteq> []" "missingFromCache \<noteq> []" by simp_all
  from classifyUsers_both [OF this] assms m
  have eq: "added = a" "removed = map snd left" "changed = c" by simp_all
  have k: "keyed_by_uid ?m" by (rule keyed_missingUserMap)
  have left: "left = filter (\<lambda>(k, u). k \<notin> User.UID ` set newInCache) ?m"
    by (rule matchUsers_left [OF k m])
  have "keyed_by_uid left" unfolding left by (rule keyed_filter [OF k])
  then have "User.UID ` set (map snd left) = fst ` set left"
    by (rule keyed_uids)
  moreover have "fst ` set left \<inter> User.UID ` set newInCache = {}"
    unfolding left by (rule filtered_keys_disjoint)
  ultimately have r: "User.UID ` set removed \<inter> User.UID ` set newInCache = {}"
    unfolding eq by simp
  from matchUsers_lists [OF m] have "mset a + mset c = mset newInCache"
    by auto
  from mset_sum_subsets [OF this]
  have sub: "set added \<subseteq> set newInCache" "set changed \<subseteq> set newInCache"
    unfolding eq by simp_all
  have d: "User.UID ` set added \<inter> User.UID ` set changed = {}"
    if "distinct (map User.UID newInCache)"
  proof -
    from matchUsers_distinct [OF k that m]
    have in_out: "\<And>x. x \<in> set added \<Longrightarrow> User.UID x \<notin> fst ` set ?m"
      "\<And>y. y \<in> set changed \<Longrightarrow> User.UID y \<in> fst ` set ?m" unfolding eq by simp_all
    show ?thesis
      by (rule image_disjointI) (metis in_out)
  qed
  have 1: "User.UID ` set removed \<inter> User.UID ` set added = {}"
    by (rule image_disjoint_subset [OF r sub(1)])
  have 2: "User.UID ` set removed \<inter> User.UID ` set changed = {}"
    by (rule image_disjoint_subset [OF r sub(2)])
  from 1 2 d show ?thesis by simp
qed

subsection \<open>The scenarios, classified\<close>

lemma uids:
  "User.UID alice_bash = 1000" "User.UID alice_zsh = 1000" "User.UID alice_renamed = 1000"
  "User.UID admin_1000 = 1000" "User.UID root_user = 0" "User.UID toor_user = 0"
  "User.UID bob = 1001"
  by (simp_all add: alice_bash_def alice_zsh_def alice_renamed_def admin_1000_def
      root_user_def toor_user_def bob_def)

lemma update_hit: "AList.update k v ((k, w) # al) = (k, v) # al"
  by simp

lemma shared_uid_classification:
  "classifyUsers [alice_zsh, admin_1000] [alice_bash] = ([admin_1000], [], [alice_zsh])"
  by (simp add: classifyUsers_def missingUserMap_def uids)

lemma rotated_classification:
  "classifyUsers [alice_zsh, bob] [alice_bash, root_user] = ([bob], [root_user], [alice_zsh])"
  by (simp add: classifyUsers_def missingUserMap_def uids)

lemma duplicate_absent_classification:
  "classifyUsers [bob] [toor_user, root_user] = ([bob], [root_user], [])"
  by (simp add: classifyUsers_def missingUserMap_def uids)

text \<open>
  Claim C4, as the code has it. Whatever the two sides of the diff are, no uid of
  \<open>removed\<close> occurs in \<open>added\<close> or in \<open>changed\<close>, for \<^verbatim>\<open>compareUsers\<close> with any
  cache and any digest as well. \<open>added\<close> and \<open>changed\<close> share no uid when no two
  newly-present users share one.
\<close>

theorem classes_disjoint_by_uid:
  assumes "classifyUsers newInCache missingFromCache = (added, removed, changed)"
  shows "User.UID ` set removed \<inter> User.UID ` set added = {}
       \<and> User.UID ` set removed \<inter> User.UID ` set changed = {}
       \<and> (distinct (map User.UID newInCache) \<longrightarrow>
            User.UID ` set added \<inter> User.UID ` set changed = {})
       \<and> (compareUsers Sum64 c users = ((a, r, ch), c') \<longrightarrow>
            User.UID ` set r \<inter> User.UID ` set a = {}
            \<and> User.UID ` set r \<inter> User.UID ` set ch = {})"
proof -
  have cmp: "User.UID ` set r \<inter> User.UID ` set a = {}
      \<and> User.UID ` set r \<inter> User.UID ` set ch = {}"
    if "compareUsers Sum64 c users = ((a, r, ch), c')"
  proof -
    from that have "classifyUsers (fst (fst (DiffAndUpdateCache (Hash Sum64) c users)))
        (snd (fst (DiffAndUpdateCache (Hash Sum64) c users))) = (a, r, ch)"
      by (simp add: compareUsers_eq)
    from classes_disjoint [OF this] show ?thesis by simp
  qed
  from classes_disjoint [OF assms] cmp show ?thesis by simp
qed

text \<open>
  The theorem at a poll where alice has changed her shell, bob is new and root is gone.
\<close>

theorem classes_disjoint_by_uid_witness:
  "classifyUsers [alice_zsh, bob] [alice_bash, root_user] = ([bob], [root_user], [alice_zsh])
   \<and> User.UID ` set [root_user] \<inter> User.UID ` set [bob] = {}
   \<and> User.UID ` set [root_user] \<inter> User.UID ` set [alice_zsh] = {}
   \<and> distinct (map User.UID [alice_zsh, bob])
   \<and> User.UID ` set [bob] \<inter> User.UID ` set [alice_zsh] = {}"
proof -
  have d: "distinct (map User.UID [alice_zsh, bob])"
    by (simp add: uids)
  show ?thesis
    using classes_disjoint_by_uid [OF rotated_classification] rotated_classification d
    by simp
qed

text \<open>
  Claim C4 as stated fails when two newly-present users share a uid. alice changes her
  shell while a second account with uid 1000 appears: the loop pairs the first with
  the alice that is gone and finds no entry left for the second, so uid 1000 is in
  \<open>changed\<close> and in \<open>added\<close>.
\<close>

theorem shared_uid_added_and_changed:
  "classifyUsers [alice_zsh, admin_1000] [alice_bash] = ([admin_1000], [], [alice_zsh])
   \<and> User.UID admin_1000 = 1000 \<and> User.UID alice_zsh = 1000
   \<and> User.UID ` set [admin_1000] \<inter> User.UID ` set [alice_zsh] \<noteq> {}"
  using shared_uid_classification by (simp add: uids)

lemma classifyUsers_pairUsers:
  assumes "distinct (map User.UID missing)"
  shows "classifyUsers new missing = pairUsers new missing"
proof (cases "new = [] \<or> missing = []")
  case True
  then show ?thesis
    by (elim disjE) (simp_all add: classifyUsers_one pairUsers_Nil2)
next
  case False
  let ?m = "missingUserMap missing"
  have vals: "map snd ?m = missing"
    by (simp add: missingUserMap_distinct [OF assms] comp_def)
  obtain A R C where p: "pairUsers new missing = (A, R, C)"
    by (cases "pairUsers new missing") auto
  then have "pairUsers new (map snd ?m) = (A, R, C)" by (simp add: vals)
  from matchUsers_pairUsers [OF keyed_missingUserMap this, of "[]" "[]"]
  obtain left where "matchUsers new ?m [] [] = (A, C, left)" "map snd left = R" by auto
  with False p show ?thesis by (simp add: classifyUsers_both)
qed

lemma reportChanges_one_changed:
  assumes "cache ms = index_items (Hash (xxhash env)) (pre @ old # post)"
    and "distinct (map (Hash (xxhash env)) (pre @ old # post))"
    and "distinct (map (Hash (xxhash env)) (pre @ new # post))"
    and "Hash (xxhash env) new \<noteq> Hash (xxhash env) old"
    and "User.UID new = User.UID old"
  shows "fst (reportChanges env ms (pre @ new # post)) =
           [ReportEvent (userEvent new eventTypeEvent eventActionUserChanged)]"
proof -
  have "compareUsers (xxhash env) (cache ms) (pre @ new # post) =
      (([], [], [new]), index_items (Hash (xxhash env)) (pre @ new # post))"
    unfolding compareUsers_eq assms(1) Diff_distinct [OF assms(2,3)]
    using one_changed_diff [OF assms(2,3,4)] classifyUsers_replaced [OF assms(5)]
    by simp
  from reportChanges_events [OF this] show ?thesis by simp
qed

text \<open>
  Claim C5, as the code has it. When both sides of the diff are non-empty and no two
  newly-absent accounts share a uid, \<^verbatim>\<open>compareUsers\<close> classifies as the claim says,
  read in order: each newly-present account whose uid matches a newly-absent account
  not yet consumed is changed and consumes it, the other newly-present accounts are
  added, and the newly-absent accounts left are removed (in an order the code does
  not fix). When no two newly-present accounts share a uid either, changed are the
  newly-present accounts whose uid is among the newly-absent ones, added the others,
  and removed the newly-absent accounts whose uid is not among the newly-present
  ones. In particular an account that replaces one with its uid is changed, with
  nothing added or removed; and when the cache holds the accounts of the last poll,
  with no two fingerprints equal, an account whose shell alone has changed, and its
  fingerprint with it, gives exactly one \<^verbatim>\<open>user_changed\<close> event.
\<close>

theorem classification_by_uid:
  assumes "length newInCache > 0" and "length missingFromCache > 0"
    and "distinct (map User.UID missingFromCache)"
    and "classifyUsers newInCache missingFromCache = (added, removed, changed)"
  shows "added = fst (pairUsers newInCache missingFromCache)
       \<and> mset removed = mset (fst (snd (pairUsers newInCache missingFromCache)))
       \<and> changed = snd (snd (pairUsers newInCache missingFromCache))
       \<and> (distinct (map User.UID newInCache) \<longrightarrow>
            changed = filter (\<lambda>n. User.UID n \<in> User.UID ` set missingFromCache) newInCache
            \<and> added = filter (\<lambda>n. User.UID n \<notin> User.UID ` set missingFromCache) newInCache
            \<and> mset removed =
                mset (filter (\<lambda>m. User.UID m \<notin> User.UID ` set newInCache) missingFromCache))
       \<and> (User.UID new = User.UID old \<longrightarrow> classifyUsers [new] [old] = ([], [], [new]))
       \<and> (cache ms = index_items (Hash (xxhash env)) (pre @ old # post)
            \<and> distinct (map (Hash (xxhash env)) (pre @ old # post))
            \<and> distinct (map (Hash (xxhash env)) (pre @ old\<lparr>Shell := shell\<rparr> # post))
            \<and> Hash (xxhash env) (old\<lparr>Shell := shell\<rparr>) \<noteq> Hash (xxhash env) old \<longrightarrow>
            fst (reportChanges env ms (pre @ old\<lparr>Shell := shell\<rparr> # post)) =
              [ReportEvent (userEvent (old\<lparr>Shell := shell\<rparr>) eventTypeEvent
                 eventActionUserChanged)])"
proof -
  have p: "pairUsers newInCache missingFromCache = (added, removed, changed)"
    using classifyUsers_pairUsers [OF assms(3), of newInCache] assms(4) by simp
  have f: "changed = filter (\<lambda>n. User.UID n \<in> User.UID ` set missingFromCache) newInCache
      \<and> added = filter (\<lambda>n. User.UID n \<notin> User.UID ` set missingFromCache) newInCache
      \<and> mset removed =
          mset (filter (\<lambda>m. User.UID m \<notin> User.UID ` set newInCache) missingFromCache)"
    if "distinct (map User.UID newInCache)"
    using pairUsers_distinct [OF that, of missingFromCache] p by simp
  have e: "fst (reportChanges env ms (pre @ old\<lparr>Shell := shell\<rparr> # post)) =
              [ReportEvent (userEvent (old\<lparr>Shell := shell\<rparr>) eventTypeEvent
                 eventActionUserChanged)]"
    if "cache ms = index_items (Hash (xxhash env)) (pre @ old # post)"
      and "distinct (map (Hash (xxhash env)) (pre @ old # post))"
      and "distinct (map (Hash (xxhash env)) (pre @ old\<lparr>Shell := shell\<rparr> # post))"
      and "Hash (xxhash env) (old\<lparr>Shell := shell\<rparr>) \<noteq> Hash (xxhash env) old"
    by (rule reportChanges_one_changed [OF that]) simp
  from p f e classifyUsers_replaced [of new old] show ?thesis by simp
qed

lemma hashes:
  "Hash byte_sum alice_bash = 2866" "Hash byte_sum alice_zsh = 2793"
  "Hash byte_sum root_user = 1988"
  by code_simp+

lemma synced_cache: "cache synced = [(1988, root_user), (2866, alice_bash)]"
  by (simp add: synced_def index_items_def hashes)

lemma alice_zsh_eq: "alice_bash\<lparr>Shell := ''/bin/zsh''\<rparr> = alice_zsh"
  by (simp add: alice_bash_def alice_zsh_def)

lemma scenario_hashes:
  "distinct (map (Hash (xxhash test_env)) ([root_user] @ alice_bash # []))"
    "distinct (map (Hash (xxhash test_env))
       ([root_user] @ alice_bash\<lparr>Shell := ''/bin/zsh''\<rparr> # []))"
    "Hash (xxhash test_env) (alice_bash\<lparr>Shell := ''/bin/zsh''\<rparr>)
       \<noteq> Hash (xxhash test_env) alice_bash"
    by (simp_all add: test_env_def alice_zsh_eq hashes)

text \<open>
  The theorem at a poll where alice has changed her shell, bob is new and root is
  gone, and at the metric set that holds root and alice when alice changes her shell.
\<close>

theorem classification_by_uid_witness:
  "length [alice_zsh, bob] > 0 \<and> length [alice_bash, root_user] > 0
   \<and> distinct (map User.UID [alice_bash, root_user])
   \<and> classifyUsers [alice_zsh, bob] [alice_bash, root_user] =
       ([bob], [root_user], [alice_zsh])
   \<and> pairUsers [alice_zsh, bob] [alice_bash, root_user] = ([bob], [root_user], [alice_zsh])
   \<and> cache synced = index_items (Hash (xxhash test_env)) [root_user, alice_bash]
   \<and> fst (reportChanges test_env synced [root_user, alice_zsh]) =
       [ReportEvent (userEvent alice_zsh eventTypeEvent eventActionUserChanged)]"
proof -
  have l: "length [alice_zsh, bob] > 0" "length [alice_bash, root_user] > 0" by simp_all
  have d: "distinct (map User.UID [alice_bash, root_user])"
    by (simp add: uids)
  have p: "pairUsers [alice_zsh, bob] [alice_bash, root_user] = ([bob], [root_user], [alice_zsh])"
    by (simp add: uids)
  have c: "cache synced = index_items (Hash (xxhash test_env)) ([root_user] @ alice_bash # [])"
    by (simp add: synced_def test_env_def)
  note t = classification_by_uid [OF l d rotated_classification,
      of alice_zsh alice_bash synced test_env "[root_user]" "[]" "''/bin/zsh''"]
  note last = t [THEN conjunct2, THEN conjunct2, THEN conjunct2, THEN conjunct2,
      THEN conjunct2]
  have "fst (reportChanges test_env synced
               ([root_user] @ alice_bash\<lparr>Shell := ''/bin/zsh''\<rparr> # [])) =
          [ReportEvent (userEvent (alice_bash\<lparr>Shell := ''/bin/zsh''\<rparr>) eventTypeEvent
             eventActionUserChanged)]"
    by (rule mp [OF last]) (intro conjI c scenario_hashes)
  then have e: "fst (reportChanges test_env synced [root_user, alice_zsh]) =
       [ReportEvent (userEvent alice_zsh eventTypeEvent eventActionUserChanged)]"
    by (simp only: alice_zsh_eq append_Cons append_Nil)
  from c have c': "cache synced = index_items (Hash (xxhash test_env)) [root_user, alice_bash]"
    by (simp only: append_Cons append_Nil)
  from l d rotated_classification p c' e show ?thesis by (intro conjI)
qed

text \<open>
  Claim C5 as stated fails when two newly-absent accounts share a uid. root and toor,
  both with uid 0, are gone and bob is new: the map keeps one entry for uid 0, so toor
  is newly absent, is paired with no one, and is not in \<open>removed\<close>. And a
  newly-present account whose uid matches a newly-absent account already consumed is
  added, not changed.
\<close>

theorem unpaired_accounts:
  "classifyUsers [bob] [toor_user, root_user] = ([bob], [root_user], [])
   \<and> toor_user \<notin> set [root_user]
   \<and> User.UID toor_user \<notin> User.UID ` set [bob]
   \<and> classifyUsers [alice_zsh, admin_1000] [alice_bash] = ([admin_1000], [], [alice_zsh])
   \<and> User.UID admin_1000 = User.UID alice_bash"
  using duplicate_absent_classification shared_uid_classification
  by (simp add: uids toor_user_def root_user_def)

section \<open>Claims about the resync and the hash\<close>

lemma since_at_period: "Since (now_Since poll_at_period) (lastState synced) = 43200000000000"
  by (simp add: Since_def poll_at_period_def synced_def)

lemma since_after_period:
  "Since (now_Since poll_after_period) (lastState synced) = 43200000000001"
  by (simp add: Since_def poll_after_period_def synced_def)

lemma synced_not_empty: "\<not> IsEmpty (cache synced)"
  by (simp add: IsEmpty_def synced_cache)

text \<open>
  Claim C2, as the code has it. When the users are there, \<^verbatim>\<open>Fetch\<close> resyncs, that is
  reports an \<^verbatim>\<open>existing_user\<close> event for every user and sets the time of the last
  state to the clock, if and only if the cache is empty or the time since the last
  state is greater than the state period; otherwise it reports no state event and
  keeps the time. The comparison is strict.
\<close>

theorem resync_condition:
  assumes "GetUsers inp = Some users"
  shows "state_events (fst (Fetch env inp ms)) =
           (if IsEmpty (cache ms)
               \<or> effectiveStatePeriod ms < Since (now_Since inp) (lastState ms)
            then map (existing_user (stateID inp)) users else [])
       \<and> lastState (snd (Fetch env inp ms)) =
           (if IsEmpty (cache ms)
               \<or> effectiveStatePeriod ms < Since (now_Since inp) (lastState ms)
            then now_reportState inp else lastState ms)"
  using Fetch_resync [OF assms] by simp

text \<open>The theorem one nanosecond after the state period: the resync fires.\<close>

theorem resync_condition_witness:
  "GetUsers poll_after_period = Some [root_user, alice_bash]
   \<and> Since (now_Since poll_after_period) (lastState synced) = effectiveStatePeriod synced + 1
   \<and> state_events (fst (Fetch test_env poll_after_period synced)) =
       [existing_user ''6ba7b810-9dad-41d1-80b4-00c04fd430c8'' root_user,
        existing_user ''6ba7b810-9dad-41d1-80b4-00c04fd430c8'' alice_bash]
   \<and> lastState (snd (Fetch test_env poll_after_period synced)) = 63900043200000000007"
proof -
  have g: "GetUsers poll_after_period = Some [root_user, alice_bash]"
    by (simp add: poll_after_period_def)
  have p: "effectiveStatePeriod synced = 43200000000000"
    by (simp add: synced_def)
  show ?thesis
    using resync_condition [OF g, of test_env synced] g p since_after_period
    by (simp add: poll_after_period_def)
qed

text \<open>
  Claim C2 as stated fails on the poll where the time since the last state equals
  the state period, with a cache that is not empty: \<^verbatim>\<open>Fetch\<close> reports nothing and
  keeps the time of the last state; no resync fires.
\<close>

theorem no_resync_at_exact_period:
  "GetUsers poll_at_period = Some [root_user, alice_bash]
   \<and> Since (now_Since poll_at_period) (lastState synced) = effectiveStatePeriod synced
   \<and> state_events (fst (Fetch test_env poll_at_period synced)) = []
   \<and> fst (Fetch test_env poll_at_period synced) = []
   \<and> lastState (snd (Fetch test_env poll_at_period synced)) = lastState synced"
proof -
  have g: "GetUsers poll_at_period = Some [root_user, alice_bash]"
    by (simp add: poll_at_period_def)
  have p: "effectiveStatePeriod synced = 43200000000000"
    by (simp add: synced_def)
  have same: "Hash byte_sum ` set [root_user, alice_bash] = fst ` set (cache synced)"
    by (simp add: synced_cache hashes)
  have xx: "xxhash test_env = byte_sum" by (simp add: test_env_def)
  have "fst (DiffAndUpdateCache (Hash byte_sum) (cache synced) [root_user, alice_bash]) = ([], [])"
    by (rule Diff_same_fingerprints [OF same])
  then have "compareUsers (xxhash test_env) (cache synced) [root_user, alice_bash] =
      (([], [], []), snd (DiffAndUpdateCache (Hash byte_sum) (cache synced) [root_user, alice_bash]))"
    by (simp add: compareUsers_eq xx classifyUsers_one)
  from reportChanges_nothing [OF this]
  have "fst (Fetch test_env poll_at_period synced) = []"
    using since_at_period synced_not_empty p
    by (simp add: Fetch_eq [OF g] report_error_def)
  then show ?thesis
    using Fetch_resync [OF g, of test_env synced] g p since_at_period synced_not_empty
    by simp
qed

lemma Hash_fields:
  assumes "Name a = Name b" and "Passwd a = Passwd b" and "User.UID a = User.UID b"
    and "GID a = GID b" and "Dir a = Dir b" and "Shell a = Shell b"
  shows "Hash Sum64 a = Hash Sum64 b"
  using assms by (simp add: Hash_def)

lemma comment_only_hashes:
  "list_all2 (\<lambda>old new. new = old\<lparr>UserInfo := UserInfo new\<rparr>) olds news \<Longrightarrow>
   map (Hash Sum64) news = map (Hash Sum64) olds"
proof (induction rule: list_all2_induct)
  case Nil
  show ?case by simp
next
  case (Cons old olds new news)
  from Cons.hyps(1) have "Hash Sum64 new = Hash Sum64 (old\<lparr>UserInfo := UserInfo new\<rparr>)"
    by simp
  then have "Hash Sum64 new = Hash Sum64 old" by (simp add: Hash_ignores_UserInfo)
  with Cons.IH show ?case by simp
qed

lemma change_events_Nil: "change_events [] = []"
  by (simp add: change_events_def)

lemma compareUsers_same_fingerprints:
  assumes "Hash Sum64 ` set users = fst ` set c"
  shows "compareUsers Sum64 c users = (([], [], []), index_items (Hash Sum64) users)"
  using Diff_same_fingerprints [OF assms]
  by (simp add: compareUsers_eq classifyUsers_one Diff_cache)

lemma Fetch_same_fingerprints:
  assumes "GetUsers inp = Some users"
    and "Hash (xxhash env) ` set users = fst ` set (cache ms)"
  shows "change_events (fst (Fetch env inp ms)) = []"
    and "\<not> IsEmpty (cache ms) \<Longrightarrow>
         Since (now_Since inp) (lastState ms) \<le> effectiveStatePeriod ms \<Longrightarrow>
         fst (Fetch env inp ms) = []"
proof -
  let ?h = "Hash (xxhash env)"
  let ?ms = "snd (snd (reportState env inp ms users))"
  have quiet: "reportChanges env ms users = ([], None, ms\<lparr>cache := index_items ?h users\<rparr>)"
    by (rule reportChanges_nothing [OF compareUsers_same_fingerprints [OF assms(2)]])
  have "?h ` set users = fst ` set (cache ?ms)"
    by (simp add: reportState_cache index_keys)
  from reportChanges_nothing [OF compareUsers_same_fingerprints [OF this]]
  have quiet': "reportChanges env ?ms users = ([], None, ?ms\<lparr>cache := index_items ?h users\<rparr>)" .
  show "change_events (fst (Fetch env inp ms)) = []"
    by (simp add: Fetch_eq [OF assms(1)] quiet quiet' change_events_append change_events_error
        reportState_events change_events_existing change_events_Nil)
  show "fst (Fetch env inp ms) = []"
    if "\<not> IsEmpty (cache ms)"
      and "Since (now_Since inp) (lastState ms) \<le> effectiveStatePeriod ms"
    using that by (simp add: Fetch_eq [OF assms(1)] quiet report_error_def)
qed

text \<open>
  Claim C9. Two users that agree on name, password placeholder, uid, gid, home
  directory and shell have the same hash, for every digest. So when the cache holds
  the accounts of the last poll and every account of this poll is the account of the
  last poll at its place but for its comment text, \<^verbatim>\<open>Fetch\<close> reports no
  \<^verbatim>\<open>user_added\<close>, \<^verbatim>\<open>user_removed\<close> or \<^verbatim>\<open>user_changed\<close> event, and reports nothing at
  all unless a resync is due.
\<close>

theorem comment_change_is_invisible:
  assumes "Name a = Name b" and "Passwd a = Passwd b" and "User.UID a = User.UID b"
    and "GID a = GID b" and "Dir a = Dir b" and "Shell a = Shell b"
  shows "Hash Sum64 a = Hash Sum64 b
       \<and> (cache ms = index_items (Hash (xxhash env)) olds
            \<and> GetUsers inp = Some news
            \<and> list_all2 (\<lambda>old new. new = old\<lparr>UserInfo := UserInfo new\<rparr>) olds news \<longrightarrow>
            change_events (fst (Fetch env inp ms)) = []
            \<and> (\<not> IsEmpty (cache ms)
                 \<and> Since (now_Since inp) (lastState ms) \<le> effectiveStatePeriod ms \<longrightarrow>
                fst (Fetch env inp ms) = []))"
proof -
  have poll: "change_events (fst (Fetch env inp ms)) = []
      \<and> (\<not> IsEmpty (cache ms)
           \<and> Since (now_Since inp) (lastState ms) \<le> effectiveStatePeriod ms \<longrightarrow>
          fst (Fetch env inp ms) = [])"
    if c: "cache ms = index_items (Hash (xxhash env)) olds"
      and g: "GetUsers inp = Some news"
      and l: "list_all2 (\<lambda>old new. new = old\<lparr>UserInfo := UserInfo new\<rparr>) olds news"
  proof -
    from comment_only_hashes [OF l, of "xxhash env"]
    have "set (map (Hash (xxhash env)) news) = set (map (Hash (xxhash env)) olds)" by simp
    then have "Hash (xxhash env) ` set news = fst ` set (cache ms)"
      by (simp add: c index_keys)
    from Fetch_same_fingerprints [OF g this] show ?thesis by simp
  qed
  from Hash_fields [OF assms] poll show ?thesis by simp
qed

text \<open>
  The theorem at alice with her comment changed, a minute after the last resync.
\<close>

theorem comment_change_is_invisible_witness:
  "Name alice_bash = Name alice_renamed \<and> UserInfo alice_bash \<noteq> UserInfo alice_renamed
   \<and> Hash byte_sum alice_bash = Hash byte_sum alice_renamed
   \<and> cache synced = index_items (Hash (xxhash test_env)) [root_user, alice_bash]
   \<and> GetUsers poll_renamed = Some [root_user, alice_renamed]
   \<and> fst (Fetch test_env poll_renamed synced) = []"
proof -
  have f: "Name alice_bash = Name alice_renamed" "Passwd alice_bash = Passwd alice_renamed"
    "User.UID alice_bash = User.UID alice_renamed" "GID alice_bash = GID alice_renamed"
    "Dir alice_bash = Dir alice_renamed" "Shell alice_bash = Shell alice_renamed"
    by (simp_all add: alice_bash_def alice_renamed_def)
  have i: "UserInfo alice_bash \<noteq> UserInfo alice_renamed"
    by (simp add: alice_bash_def alice_renamed_def)
  have c: "cache synced = index_items (Hash (xxhash test_env)) [root_user, alice_bash]"
    by (simp add: synced_def test_env_def)
  have g: "GetUsers poll_renamed = Some [root_user, alice_renamed]"
    by (simp add: poll_renamed_def)
  have l: "list_all2 (\<lambda>old new. new = old\<lparr>UserInfo := UserInfo new\<rparr>)
      [root_user, alice_bash] [root_user, alice_renamed]"
    by (simp add: alice_bash_def alice_renamed_def)
  have s: "Since (now_Since poll_renamed) (lastState synced) \<le> effectiveStatePeriod synced"
    by (simp add: Since_def poll_renamed_def synced_def)
  show ?thesis
    using comment_change_is_invisible [OF f, of byte_sum synced test_env
        "[root_user, alice_bash]" poll_renamed "[root_user, alice_renamed]"]
      f(1) i c g l s synced_not_empty
    by simp
qed

end
